theory Spec2Isabelle
  imports Main "HOL-Library.Sublist"
begin

section \<open>Strings and files\<close>

text \<open>
  A JavaScript string is modelled as a \<^typ>\<open>string\<close>: one \<^typ>\<open>char\<close> per UTF-16 code
  unit, for the code units U+0000 to U+00FF.  The character classes below list the members
  of the JavaScript classes that lie in this range.
\<close>

record WebFile =
  name :: string
  content :: string

definition startsWith :: "string \<Rightarrow> string \<Rightarrow> bool" where
  "startsWith s p = prefix p s"

definition endsWith :: "string \<Rightarrow> string \<Rightarrow> bool" where
  "endsWith s p = suffix p s"

text \<open>\<open>\s\<close> and \<open>String.prototype.trim\<close> share one set: white space and line terminators.\<close>

definition isSpace :: "char \<Rightarrow> bool" where
  "isSpace c = (c \<in> set [CHR 0x09, CHR 0x0A, CHR 0x0B, CHR 0x0C, CHR 0x0D, CHR 0x20, CHR 0xA0])"

definition isLineTerminator :: "char \<Rightarrow> bool" where
  "isLineTerminator c = (c \<in> set [CHR 0x0A, CHR 0x0D])"

definition trim :: "string \<Rightarrow> string" where
  "trim s = rev (dropWhile isSpace (rev (dropWhile isSpace s)))"

section \<open>Regular expressions with backtracking\<close>

text \<open>
  The three regular expressions of the source use literals, one capture group, and greedy
  or lazy repetition of a character class.  A pattern is the list of its pieces in source
  order.  \<open>Greedy c m\<close> is \<open>c*\<close> for \<open>m = 0\<close> and \<open>c+\<close> for \<open>m = 1\<close>; \<open>Lazy c m\<close> is
  \<open>c*?\<close> for \<open>m = 0\<close>.
\<close>

datatype cls = Space | Dot | Not char | AnyChar

fun cls_ok :: "cls \<Rightarrow> char \<Rightarrow> bool" where
  "cls_ok Space c = isSpace c"
| "cls_ok Dot c = (\<not> isLineTerminator c)"
| "cls_ok (Not d) c = (c \<noteq> d)"
| "cls_ok AnyChar c = True"

datatype rx = Lit string | Greedy cls nat | Lazy cls nat | GroupOpen | GroupClose

text \<open>
  A greedy repetition tries the longest run first and gives characters back one at a time;
  a lazy one tries the shortest run first.  \<open>k\<close> is the rest of the pattern.
\<close>

fun greedy_rep :: "(char \<Rightarrow> bool) \<Rightarrow> nat \<Rightarrow> (string \<Rightarrow> 'a option) \<Rightarrow> string \<Rightarrow> 'a option" where
  "greedy_rep P m k [] = (if m = 0 then k [] else None)"
| "greedy_rep P m k (c # s) =
     (if P c then
        (case greedy_rep P (m - 1) k s of
           Some r \<Rightarrow> Some r
         | None \<Rightarrow> if m = 0 then k (c # s) else None)
      else if m = 0 then k (c # s) else None)"

fun lazy_rep :: "(char \<Rightarrow> bool) \<Rightarrow> nat \<Rightarrow> (string \<Rightarrow> 'a option) \<Rightarrow> string \<Rightarrow> 'a option" where
  "lazy_rep P m k [] = (if m = 0 then k [] else None)"
| "lazy_rep P m k (c # s) =
     (case (if m = 0 then k (c # s) else None) of
        Some r \<Rightarrow> Some r
      | None \<Rightarrow> if P c then lazy_rep P (m - 1) k s else None)"

text \<open>
  \<open>rxmatch p g s\<close> matches pattern \<open>p\<close> at the start of \<open>s\<close>.  \<open>g\<close> holds the input as it
  stood where the group opened, and the text the group captured.  The result is the input
  left after the match and the captured text.
\<close>

fun rxmatch :: "rx list \<Rightarrow> string \<times> string \<Rightarrow> string \<Rightarrow> (string \<times> string) option" where
  "rxmatch [] g s = Some (s, snd g)"
| "rxmatch (Lit l # p) g s = (if prefix l s then rxmatch p g (drop (length l) s) else None)"
| "rxmatch (Greedy c m # p) g s = greedy_rep (cls_ok c) m (\<lambda>s'. rxmatch p g s') s"
| "rxmatch (Lazy c m # p) g s = lazy_rep (cls_ok c) m (\<lambda>s'. rxmatch p g s') s"
| "rxmatch (GroupOpen # p) g s = rxmatch p (s, snd g) s"
| "rxmatch (GroupClose # p) g s =
     rxmatch p (fst g, take (length (fst g) - length s) (fst g)) s"

text \<open>
  \<open>String.prototype.replace\<close> with a global pattern and a replacer function: the matches
  are found from left to right without overlap, each is replaced by what the function
  returns for the matched text and the group, and the text between them is kept.  After an
  empty match the search moves on by one character.
\<close>

function replace_all :: "rx list \<Rightarrow> (string \<Rightarrow> string \<Rightarrow> string) \<Rightarrow> string \<Rightarrow> string" where
  "replace_all p f [] =
     (case rxmatch p ([], []) [] of Some (rest, g) \<Rightarrow> f [] g | None \<Rightarrow> [])"
| "replace_all p f (c # s) =
     (case rxmatch p ([], []) (c # s) of
        None \<Rightarrow> c # replace_all p f s
      | Some (rest, g) \<Rightarrow>
          if length rest < Suc (length s)
          then f (take (Suc (length s) - length rest) (c # s)) g @ replace_all p f rest
          else f [] g @ c # replace_all p f s)"
  by pat_completeness auto
termination
  by (relation "measure (\<lambda>(p, f, s). length s)") auto

text \<open>
  \<open>String.prototype.match\<close> with a pattern that is not global: the leftmost match, if there
  is one.
\<close>

fun rxsearch :: "rx list \<Rightarrow> string \<Rightarrow> (string \<times> string) option" where
  "rxsearch p [] = rxmatch p ([], []) []"
| "rxsearch p (c # s) =
     (case rxmatch p ([], []) (c # s) of Some r \<Rightarrow> Some r | None \<Rightarrow> rxsearch p s)"

section \<open>The preview compositor\<close>

text \<open>
  The definitions of this section follow \<open>getPreviewContent\<close> in the application file
  (\<open>part_000\<close>, lines 136 to 200).  Its first pattern is
  \<open>/<link\s+.*?href="([^"]+\.css)"[^>]*>/g\<close>.
\<close>

definition linkRegex :: "rx list" where
  \<open>linkRegex =
     [Lit ''<link'', Greedy Space 1, Lazy Dot 0, Lit ''href="'',
      GroupOpen, Greedy (Not (CHR ''"'')) 1, Lit ''.css'', GroupClose,
      Lit ''"'', Greedy (Not (CHR ''>'')) 0, Lit ''>'']\<close>

text \<open>Its second pattern is \<open>/<script\s+.*?src="([^"]+\.js)"[^>]*><\/script>/g\<close>.\<close>

definition scriptRegex :: "rx list" where
  \<open>scriptRegex =
     [Lit ''<script'', Greedy Space 1, Lazy Dot 0, Lit ''src="'',
      GroupOpen, Greedy (Not (CHR ''"'')) 1, Lit ''.js'', GroupClose,
      Lit ''"'', Greedy (Not (CHR ''>'')) 0, Lit ''></script>'']\<close>

definition styleBlock :: "WebFile \<Rightarrow> string" where
  "styleBlock cssFile = ''<style>\<newline>'' @ content cssFile @ ''\<newline></style>''"

definition scriptBlock :: "WebFile \<Rightarrow> string" where
  "scriptBlock jsFile = ''<script>\<newline>'' @ content jsFile @ ''\<newline></script>''"

definition inlineStyles :: "WebFile list \<Rightarrow> string \<Rightarrow> string" where
  "inlineStyles files htmlContent =
     replace_all linkRegex
       (\<lambda>match href. case find (\<lambda>f. name f = href) files of
                        Some cssFile \<Rightarrow> styleBlock cssFile
                      | None \<Rightarrow> match)
       htmlContent"

definition inlineScripts :: "WebFile list \<Rightarrow> string \<Rightarrow> string" where
  "inlineScripts files htmlContent =
     replace_all scriptRegex
       (\<lambda>match src. case find (\<lambda>f. name f = src) files of
                       Some jsFile \<Rightarrow> scriptBlock jsFile
                     | None \<Rightarrow> match)
       htmlContent"

subsection \<open>\<open>JSON.stringify\<close> of the page table\<close>

text \<open>
  The page table is an array of objects with the keys \<open>name\<close> and \<open>content\<close>, in this
  order.  A string is quoted as \<open>JSON.stringify\<close> quotes it: the double quote, the backslash
  and the control characters are escaped, every other character stands for itself.
\<close>

definition hexDigit :: "nat \<Rightarrow> char" where
  "hexDigit n = ''0123456789abcdef'' ! (n mod 16)"

definition backslash :: char where
  "backslash = CHR 0x5C"

definition quoteJSONChar :: "char \<Rightarrow> string" where
  "quoteJSONChar c =
     (if c = CHR 0x08 then [backslash, CHR ''b'']
      else if c = CHR 0x09 then [backslash, CHR ''t'']
      else if c = CHR 0x0A then [backslash, CHR ''n'']
      else if c = CHR 0x0C then [backslash, CHR ''f'']
      else if c = CHR 0x0D then [backslash, CHR ''r'']
      else if c = CHR 0x22 then [backslash, CHR 0x22]
      else if c = CHR 0x5C then [backslash, backslash]
      else if of_char c < (32::nat)
        then [backslash, CHR ''u'', CHR ''0'', CHR ''0'',
              hexDigit (of_char c div 16), hexDigit (of_char c mod 16)]
      else [c])"

definition quoteJSONString :: "string \<Rightarrow> string" where
  "quoteJSONString s = [CHR 0x22] @ concat (map quoteJSONChar s) @ [CHR 0x22]"

definition stringifyPage :: "WebFile \<Rightarrow> string" where
  \<open>stringifyPage f =
     ''{"name":'' @ quoteJSONString (name f) @ '',"content":'' @ quoteJSONString (content f) @ ''}''\<close>

fun joinComma :: "string list \<Rightarrow> string" where
  "joinComma [] = []"
| "joinComma [x] = x"
| "joinComma (x # y # ys) = x @ '','' @ joinComma (y # ys)"

definition JSON_stringify :: "WebFile list \<Rightarrow> string" where
  "JSON_stringify fs = ''['' @ joinComma (map stringifyPage fs) @ '']''"

subsection \<open>The navigation script\<close>

text \<open>
  The template literal of lines 160 to 198, character by character: the text before the
  page table and the text after it.
\<close>

definition navigationScript_before :: string where
  \<open>navigationScript_before =
     ''\<newline>'' @
     ''      <script>\<newline>'' @
     ''        const allPages = ''\<close>

definition navigationScript_after :: string where
  \<open>navigationScript_after =
     '';\<newline>'' @
     ''        document.addEventListener('DOMContentLoaded', () => {\<newline>'' @
     ''          // Virtual navigation for standard links\<newline>'' @
     ''          document.querySelectorAll('a').forEach(link => {\<newline>'' @
     ''            link.addEventListener('click', (event) => {\<newline>'' @
     ''              const href = link.getAttribute('href');\<newline>'' @
     ''              const targetPage = allPages.find(p => p.name === href);\<newline>'' @
     ''              if (href && !href.startsWith('http') && !href.startsWith('#') && targetPage) {\<newline>'' @
     ''                event.preventDefault();\<newline>'' @
     ''                document.body.innerHTML = new DOMParser().parseFromString(targetPage.content, 'text/html').body.innerHTML;\<newline>'' @
     ''                \<newline>'' @
     ''                // Re-run scripts from the new body\<newline>'' @
     ''                const newScripts = document.body.querySelectorAll('script');\<newline>'' @
     ''                newScripts.forEach(oldScript => {\<newline>'' @
     ''                  const newScript = document.createElement('script');\<newline>'' @
     ''                  Array.from(oldScript.attributes).forEach(attr => newScript.setAttribute(attr.name, attr.value));\<newline>'' @
     ''                  newScript.appendChild(document.createTextNode(oldScript.innerHTML));\<newline>'' @
     ''                  oldScript.parentNode.replaceChild(newScript, oldScript);\<newline>'' @
     ''                });\<newline>'' @
     ''\<newline>'' @
     ''                // Re-attach listeners for the new DOM\<newline>'' @
     ''                window.parent.postMessage({ type: 'virtual-nav-reinit' }, '*');\<newline>'' @
     ''              }\<newline>'' @
     ''            });\<newline>'' @
     ''          });\<newline>'' @
     ''        });\<newline>'' @
     ''\<newline>'' @
     ''        // Listener to re-initialize after a virtual nav\<newline>'' @
     ''         window.addEventListener('message', (event) => {\<newline>'' @
     ''          if(event.data && event.data.type === 'virtual-nav-reinit') {\<newline>'' @
     ''            // This is a bit of a trick to re-run the DOMContentLoaded logic\<newline>'' @
     ''            const fakeEvent = new Event('DOMContentLoaded');\<newline>'' @
     ''            document.dispatchEvent(fakeEvent);\<newline>'' @
     ''          }\<newline>'' @
     ''        });\<newline>'' @
     ''      </script>\<newline>'' @
     ''    ''\<close>

definition navigationScript :: "string \<Rightarrow> string" where
  "navigationScript allFilesForNav =
     navigationScript_before @ allFilesForNav @ navigationScript_after"

subsection \<open>\<open>String.prototype.replace\<close> with a string pattern\<close>

text \<open>
  Only the first occurrence is replaced, and the replacement text is a template:
  \<open>$$\<close> stands for a dollar sign, \<open>$&\<close> for the matched text, \<open>$`\<close> for the text before the
  match and \<open>$'\<close> for the text after it.  A string pattern has no groups, so a dollar sign
  before any other character stands for itself.
\<close>

fun getSubstitution :: "string \<Rightarrow> string \<Rightarrow> string \<Rightarrow> string \<Rightarrow> string" where
  "getSubstitution matched preceding following (c # d # r) =
     (if c = CHR ''$'' then
        (if d = CHR ''$'' then CHR ''$'' # getSubstitution matched preceding following r
         else if d = CHR ''&'' then matched @ getSubstitution matched preceding following r
         else if d = CHR 0x60 then preceding @ getSubstitution matched preceding following r
         else if d = CHR 0x27 then following @ getSubstitution matched preceding following r
         else c # getSubstitution matched preceding following (d # r))
      else c # getSubstitution matched preceding following (d # r))"
| "getSubstitution matched preceding following r = r"

fun splitFirst :: "string \<Rightarrow> string \<Rightarrow> (string \<times> string) option" where
  "splitFirst pat [] = (if pat = [] then Some ([], []) else None)"
| "splitFirst pat (c # s) =
     (if prefix pat (c # s) then Some ([], drop (length pat) (c # s))
      else map_option (\<lambda>(b, a). (c # b, a)) (splitFirst pat s))"

definition String_replace :: "string \<Rightarrow> string \<Rightarrow> string \<Rightarrow> string" where
  "String_replace s pat replacement =
     (case splitFirst pat s of
        None \<Rightarrow> s
      | Some (b, a) \<Rightarrow> b @ getSubstitution pat b a replacement @ a)"

subsection \<open>\<open>getPreviewContent\<close>\<close>

definition previewError :: "string \<Rightarrow> string" where
  \<open>previewError activePreviewPage =
     ''<!-- Preview Error: Could not find HTML file "'' @ activePreviewPage @ ''" -->''\<close>

definition allFilesForNav :: "WebFile list \<Rightarrow> string" where
  "allFilesForNav files = JSON_stringify (filter (\<lambda>f. endsWith (name f) ''.html'') files)"

text \<open>
  The \<open>files\<close> property is \<open>None\<close> for \<open>null\<close>.  The function has no \<open>throw\<close> and calls
  nothing that throws on strings, so its result is a plain string.
\<close>

definition getPreviewContent :: "WebFile list option \<Rightarrow> string \<Rightarrow> string" where
  "getPreviewContent files activePreviewPage =
     (case files of
        None \<Rightarrow> []
      | Some fs \<Rightarrow>
          if length fs = 0 then []
          else
            (case find (\<lambda>f. name f = activePreviewPage) fs of
               None \<Rightarrow> previewError activePreviewPage
             | Some pageFile \<Rightarrow>
                 if \<not> endsWith (name pageFile) ''.html'' then previewError activePreviewPage
                 else
                   String_replace
                     (inlineScripts fs (inlineStyles fs (content pageFile)))
                     ''</body>''
                     (navigationScript (allFilesForNav fs) @ ''</body>'')))"

text \<open>
  The repository holds the component a second time, in its combined entry file.  That copy
  differs in the text of the script only, which it writes on one line without comments.
\<close>

definition navigationScript_combined :: "string \<Rightarrow> string" where
  \<open>navigationScript_combined pageTable =
     ''<script>const allPages = '' @
     pageTable @
     ''; document.addEventListener('DOMContentLoaded', () => { document.querySelectorAll('a').f'' @
     ''orEach(link => { link.addEventListener('click', (event) => { const href = link.getAttrib'' @
     ''ute('href'); const targetPage = allPages.find(p => p.name === href); if (href && !href.s'' @
     ''tartsWith('http') && !href.startsWith('#') && targetPage) { event.preventDefault(); docu'' @
     ''ment.body.innerHTML = new DOMParser().parseFromString(targetPage.content, 'text/html').b'' @
     ''ody.innerHTML; const newScripts = document.body.querySelectorAll('script'); newScripts.f'' @
     ''orEach(oldScript => { const newScript = document.createElement('script'); Array.from(old'' @
     ''Script.attributes).forEach(attr => newScript.setAttribute(attr.name, attr.value)); newSc'' @
     ''ript.appendChild(document.createTextNode(oldScript.innerHTML)); oldScript.parentNode.rep'' @
     ''laceChild(newScript, oldScript); }); window.parent.postMessage({ type: 'virtual-nav-rein'' @
     ''it' }, '*'); } }); }); }); window.addEventListener('message', (event) => { if(event.data'' @
     '' && event.data.type === 'virtual-nav-reinit') { const fakeEvent = new Event('DOMContentL'' @
     ''oaded'); document.dispatchEvent(fakeEvent); } }); </script>''\<close>

definition getPreviewContent_combined :: "WebFile list option \<Rightarrow> string \<Rightarrow> string" where
  "getPreviewContent_combined files activePreviewPage =
     (case files of
        None \<Rightarrow> []
      | Some fs \<Rightarrow>
          if length fs = 0 then []
          else
            (case find (\<lambda>f. name f = activePreviewPage) fs of
               None \<Rightarrow> previewError activePreviewPage
             | Some pageFile \<Rightarrow>
                 if \<not> endsWith (name pageFile) ''.html'' then previewError activePreviewPage
                 else
                   String_replace
                     (inlineScripts fs (inlineStyles fs (content pageFile)))
                     ''</body>''
                     (navigationScript_combined (allFilesForNav fs) @ ''</body>'')))"

section \<open>The \<open>CodeResult\<close> component\<close>

datatype ActiveTab = preview | code

text \<open>
  The component's \<open>useState\<close> cells (\<open>part_000\<close>, lines 46 to 53); the \<open>files\<close> property is
  passed separately.
\<close>

record CodeResult =
  activeTab :: ActiveTab
  selectedFile :: string
  activePreviewPage :: string
  formattedContent :: string
  isCopied :: bool
  isFullscreen :: bool
  isGithubModalOpen :: bool
  lineCount :: nat

text \<open>\<open>files.find(f => f.name === 'index.html')?.name || files[0]?.name || ''\<close>\<close>

definition truthy :: "string option \<Rightarrow> bool" where
  "truthy v = (case v of None \<Rightarrow> False | Some s \<Rightarrow> s \<noteq> [])"

definition defaultSelectedFile :: "WebFile list \<Rightarrow> string" where
  "defaultSelectedFile files =
     (let a = map_option name (find (\<lambda>f. name f = ''index.html'') files);
          b = (case files of [] \<Rightarrow> None | f # _ \<Rightarrow> Some (name f))
      in if truthy a then the a else if truthy b then the b else [])"

definition initialCodeResult :: "WebFile list \<Rightarrow> CodeResult" where
  "initialCodeResult files =
     \<lparr>activeTab = preview, selectedFile = defaultSelectedFile files,
      activePreviewPage = ''index.html'', formattedContent = [], isCopied = False,
      isFullscreen = False, isGithubModalOpen = False, lineCount = 0\<rparr>"

text \<open>
  The effect of lines 73 to 80, which runs after a render in which \<open>files\<close>,
  \<open>selectedFile\<close> or \<open>activePreviewPage\<close> changed.  Both tests read the values of that
  render.
\<close>

definition syncSelection :: "WebFile list \<Rightarrow> CodeResult \<Rightarrow> CodeResult" where
  "syncSelection files s =
     (let s1 = (if \<not> list_ex (\<lambda>f. name f = selectedFile s) files
                then s\<lparr>selectedFile := defaultSelectedFile files\<rparr> else s)
      in if \<not> list_ex (\<lambda>f. name f = activePreviewPage s) files
         then s1\<lparr>activePreviewPage := ''index.html''\<rparr> else s1)"

text \<open>\<open>getPreviewContent\<close> as the closure the component builds in a render.\<close>

definition CodeResult_getPreviewContent :: "WebFile list option \<Rightarrow> CodeResult \<Rightarrow> string" where
  "CodeResult_getPreviewContent files s = getPreviewContent files (activePreviewPage s)"

definition CodeResult_getPreviewContent_combined ::
  "WebFile list option \<Rightarrow> CodeResult \<Rightarrow> string" where
  "CodeResult_getPreviewContent_combined files s =
     getPreviewContent_combined files (activePreviewPage s)"

definition handleFileContentChange :: "WebFile list \<Rightarrow> CodeResult \<Rightarrow> string \<Rightarrow> WebFile list" where
  "handleFileContentChange files s newContent =
     map (\<lambda>file. if name file = selectedFile s then file\<lparr>content := newContent\<rparr> else file) files"

section \<open>The generation service\<close>

text \<open>
  \<open>parseJsonResponse\<close> of \<open>services/geminiService.ts\<close>, lines 71 to 96, and the values
  \<open>JSON.parse\<close> returns.  The type of numbers is left open.  \<open>JSON.parse\<close> itself is a
  parameter of the model: a function from the text to the value, \<open>None\<close> where it throws a
  \<open>SyntaxError\<close>.
\<close>

datatype 'n json =
    JNull
  | JBool bool
  | JNumber 'n
  | JString string
  | JArray "'n json list"
  | JObject "(string \<times> 'n json) list"

datatype js_error = SyntaxError | TypeError | Error string

record Schema =
  required :: "string list"

definition generationResponseSchema :: Schema where
  "generationResponseSchema = \<lparr>required = [''files'']\<rparr>"

definition refinementResponseSchema :: Schema where
  "refinementResponseSchema = \<lparr>required = [''files'', ''explanation'']\<rparr>"

text \<open>
  \<open>key in parsed\<close>.  On a value that is no object the operator throws a \<open>TypeError\<close>.  The
  keys asked for are \<open>files\<close> and \<open>explanation\<close>, which no array and no prototype has, so an
  object has the key when it is one of its own and an array never has it.
\<close>

fun key_in :: "string \<Rightarrow> 'n json \<Rightarrow> js_error + bool" where
  "key_in k (JObject kvs) = Inr (k \<in> set (map fst kvs))"
| "key_in k (JArray xs) = Inr False"
| "key_in k v = Inl TypeError"

text \<open>\<open>schema.required.every(key => key in parsed)\<close>\<close>

fun every_key_in :: "string list \<Rightarrow> 'n json \<Rightarrow> js_error + bool" where
  "every_key_in [] v = Inr True"
| "every_key_in (k # ks) v =
     (case key_in k v of
        Inl e \<Rightarrow> Inl e
      | Inr b \<Rightarrow> if b then every_key_in ks v else Inr False)"

text \<open>\<open>/```json\s*([\s\S]*?)\s*```/\<close>\<close>

definition fenceRegex :: "rx list" where
  "fenceRegex =
     [Lit ''```json'', Greedy Space 0, GroupOpen, Lazy AnyChar 0, GroupClose,
      Greedy Space 0, Lit ''```'']"

text \<open>\<open>jsonMatch[1]\<close> of \<open>rawText.match(...)\<close>, \<open>None\<close> when there is no match.\<close>

definition fencedBlock :: "string \<Rightarrow> string option" where
  "fencedBlock rawText = map_option snd (rxsearch fenceRegex rawText)"

definition parseError :: js_error where
  "parseError = Error ''Could not parse a valid object from the model's response.''"

text \<open>
  The outer \<open>try\<close> block gives \<open>Inr\<close> the value it returns or \<open>Inl\<close> what it throws; the
  \<open>catch\<close> block runs on every \<open>Inl\<close>.  In the inner \<open>try\<close> a thrown error and a missing key
  both fall through to the final \<open>throw\<close>.
\<close>

definition parseJsonResponse ::
  "(string \<Rightarrow> 'n json option) \<Rightarrow> string \<Rightarrow> Schema \<Rightarrow> js_error + 'n json" where
  "parseJsonResponse JSON_parse rawText schema =
     (case
        (case JSON_parse rawText of
           None \<Rightarrow> Inl SyntaxError
         | Some parsed \<Rightarrow>
             (case every_key_in (required schema) parsed of
                Inl e \<Rightarrow> Inl e
              | Inr b \<Rightarrow>
                  if b then Inr parsed
                  else Inl (Error ''Invalid response format: Missing required keys.'')))
      of
        Inr parsed \<Rightarrow> Inr parsed
      | Inl e \<Rightarrow>
          (case fencedBlock rawText of
             None \<Rightarrow> Inl parseError
           | Some block \<Rightarrow>
               (case JSON_parse block of
                  None \<Rightarrow> Inl parseError
                | Some parsedFromJsonMarkdown \<Rightarrow>
                    (case every_key_in (required schema) parsedFromJsonMarkdown of
                       Inl e' \<Rightarrow> Inl parseError
                     | Inr b \<Rightarrow> if b then Inr parsedFromJsonMarkdown else Inl parseError))))"

section \<open>The \<open>App\<close> component\<close>

datatype Role = user | assistant

record RefinementChatMessage =
  msg_id :: int
  msg_role :: Role
  msg_content :: string

record App =
  initialPrompt :: string
  appFiles :: "WebFile list option"
  isGenerating :: bool
  isRefining :: bool
  refinementPrompt :: string
  refinementHistory :: "RefinementChatMessage list"
  error :: "string option"

definition initialApp :: App where
  "initialApp =
     \<lparr>initialPrompt = [], appFiles = None, isGenerating = False, isRefining = False,
      refinementPrompt = [], refinementHistory = [], error = None\<rparr>"

text \<open>A call to a service that has been issued and has not settled.\<close>

datatype request = GenerateRequest string | RefineRequest string "WebFile list"

text \<open>
  \<open>handleGenerate\<close> and \<open>handleRefine\<close> (\<open>part_000\<close>, lines 401 to 456).  An \<open>async\<close>
  handler is two steps: the part that runs up to the \<open>await\<close>, which may issue a
  request, and the part that runs when the request settles.  A settled request gives
  \<open>Inr\<close> the value or \<open>Inl\<close> the message of the error thrown.

  A handler is a closure that a render builds.  What it reads (\<open>isGenerating\<close>, \<open>isRefining\<close>,
  \<open>refinementPrompt\<close>, \<open>appFiles\<close>) are the values of that render, \<open>render\<close> below; what it
  sets goes to the state the application holds when it runs, \<open>s\<close> below.
\<close>

definition handleGenerate :: "string \<Rightarrow> App \<Rightarrow> App \<Rightarrow> App \<times> request option" where
  "handleGenerate promptText render s =
     (if trim promptText = [] \<or> isGenerating render then (s, None)
      else (s\<lparr>isGenerating := True, error := None, appFiles := None, refinementHistory := []\<rparr>,
            Some (GenerateRequest promptText)))"

definition handleGenerate_settled :: "string + WebFile list \<Rightarrow> App \<Rightarrow> App" where
  "handleGenerate_settled r s =
     (case r of
        Inr newCode \<Rightarrow> s\<lparr>appFiles := Some newCode\<rparr>
      | Inl errorMessage \<Rightarrow> s\<lparr>error := Some (''Failed to generate app. '' @ errorMessage)\<rparr>)
     \<lparr>isGenerating := False\<rparr>"

text \<open>\<open>now\<close> is what \<open>Date.now()\<close> returns during the call.\<close>

definition handleRefine :: "int \<Rightarrow> App \<Rightarrow> App \<Rightarrow> App \<times> request option" where
  "handleRefine now render s =
     (if trim (refinementPrompt render) = [] \<or> appFiles render = None \<or> isRefining render
      then (s, None)
      else (s\<lparr>refinementHistory := refinementHistory s @
                   [\<lparr>msg_id = now, msg_role = user, msg_content = refinementPrompt render\<rparr>],
               refinementPrompt := [], isRefining := True, error := None\<rparr>,
            Some (RefineRequest (refinementPrompt render) (the (appFiles render)))))"

definition handleRefine_settled :: "int \<Rightarrow> string + WebFile list \<times> string \<Rightarrow> App \<Rightarrow> App" where
  "handleRefine_settled now r s =
     (case r of
        Inr (newFiles, explanation) \<Rightarrow>
          s\<lparr>appFiles := Some newFiles,
            refinementHistory := refinementHistory s @
              [\<lparr>msg_id = now + 1, msg_role = assistant, msg_content = explanation\<rparr>]\<rparr>
      | Inl errorMessage \<Rightarrow>
          s\<lparr>error := Some (''Failed to refine app. '' @ errorMessage),
            refinementHistory := refinementHistory s @
              [\<lparr>msg_id = now + 1, msg_role = assistant,
                msg_content = ''I'm sorry, I encountered an error: '' @ errorMessage\<rparr>]\<rparr>)
     \<lparr>isRefining := False\<rparr>"

text \<open>
  The application over time: the state it holds, the values of its latest render, which the
  handlers on the page have captured, and the number of requests of each kind that are
  outstanding.
\<close>

record World =
  held :: App
  rendered :: App
  pendingGenerate :: nat
  pendingRefine :: nat

definition issued :: "request option \<Rightarrow> nat" where
  "issued r = (case r of None \<Rightarrow> 0 | Some _ \<Rightarrow> 1)"

text \<open>
  \<open>reachable inStep w\<close>: the application can come to \<open>w\<close>.  A render brings the rendered
  values up to the held state.  A handler of the latest render may be called at any time,
  also several times before the next render.  With \<open>inStep\<close> set, \<open>handleGenerate\<close> and
  \<open>handleRefine\<close> are not called from a render that is older than the setting of their busy
  flag: when the flag is set in the held state, the latest render shows it.
\<close>

inductive reachable :: "bool \<Rightarrow> World \<Rightarrow> bool" for inStep :: bool where
  start:
    "reachable inStep
       \<lparr>held = initialApp, rendered = initialApp, pendingGenerate = 0, pendingRefine = 0\<rparr>"
| render:
    "reachable inStep w \<Longrightarrow> reachable inStep (w\<lparr>rendered := held w\<rparr>)"
| generate:
    "reachable inStep w \<Longrightarrow>
     (inStep \<longrightarrow> isGenerating (held w) \<longrightarrow> isGenerating (rendered w)) \<Longrightarrow>
     handleGenerate p (rendered w) (held w) = (s', r) \<Longrightarrow>
     reachable inStep (w\<lparr>held := s', pendingGenerate := pendingGenerate w + issued r\<rparr>)"
| generate_settled:
    "reachable inStep w \<Longrightarrow> 0 < pendingGenerate w \<Longrightarrow>
     reachable inStep (w\<lparr>held := handleGenerate_settled res (held w),
                          pendingGenerate := pendingGenerate w - 1\<rparr>)"
| refine:
    "reachable inStep w \<Longrightarrow>
     (inStep \<longrightarrow> isRefining (held w) \<longrightarrow> isRefining (rendered w)) \<Longrightarrow>
     handleRefine now (rendered w) (held w) = (s', r) \<Longrightarrow>
     reachable inStep (w\<lparr>held := s', pendingRefine := pendingRefine w + issued r\<rparr>)"
| refine_settled:
    "reachable inStep w \<Longrightarrow> 0 < pendingRefine w \<Longrightarrow>
     reachable inStep (w\<lparr>held := handleRefine_settled now res (held w),
                          pendingRefine := pendingRefine w - 1\<rparr>)"
| type_prompt:
    "reachable inStep w \<Longrightarrow>
     reachable inStep (w\<lparr>held := (held w)\<lparr>initialPrompt := a, refinementPrompt := b\<rparr>\<rparr>)"
| edit_file:
    "reachable inStep w \<Longrightarrow> appFiles (rendered w) = Some fs \<Longrightarrow>
     reachable inStep (w\<lparr>held := (held w)\<lparr>appFiles := Some (handleFileContentChange fs c new)\<rparr>\<rparr>)"

section \<open>Vocabulary of the statements\<close>

text \<open>
  \<open>noStart l u\<close>: the text \<open>l\<close> begins at no position of \<open>u\<close>, when \<open>l\<close> follows \<open>u\<close>.
\<close>

fun noStart :: "string \<Rightarrow> string \<Rightarrow> bool" where
  "noStart l [] = True"
| "noStart l (c # u) = (\<not> prefix l (c # u @ l) \<and> noStart l u)"

text \<open>\<open>noMatchBefore p u s\<close>: in the text \<open>u\<close> followed by \<open>s\<close>, no match of \<open>p\<close> begins inside \<open>u\<close>.\<close>

fun noMatchBefore :: "rx list \<Rightarrow> string \<Rightarrow> string \<Rightarrow> bool" where
  "noMatchBefore p [] s = True"
| "noMatchBefore p (c # u) s = (rxmatch p ([], []) (c # u @ s) = None \<and> noMatchBefore p u s)"

text \<open>
  The specification's reading of one parsing attempt, in its own words: the text parses,
  and the result is an object that has every required top-level key.
\<close>

definition spec_attempt :: "(string \<Rightarrow> 'n json option) \<Rightarrow> Schema \<Rightarrow> string \<Rightarrow> 'n json option"
where
  "spec_attempt JSON_parse schema body =
     (case JSON_parse body of
        None \<Rightarrow> None
      | Some v \<Rightarrow>
          (case v of
             JObject kvs \<Rightarrow> if set (required schema) \<subseteq> fst ` set kvs then Some v else None
           | _ \<Rightarrow> None))"

definition hasRequiredKeys :: "Schema \<Rightarrow> 'n json \<Rightarrow> bool" where
  "hasRequiredKeys schema v =
     (case v of JObject kvs \<Rightarrow> set (required schema) \<subseteq> fst ` set kvs | _ \<Rightarrow> False)"

section \<open>Properties\<close>
lemma find_name_Some: "find (\<lambda>f. name f = n) fs = Some f \<Longrightarrow> name f = n \<and> f \<in> set fs"
  by (auto simp: find_Some_iff)

subsection \<open>Repetition, search and replacement\<close>

lemma noStart_append: "noStart l (u @ v) \<Longrightarrow> noStart l v"
  by (induction u) auto

lemma prefix_append_longer:
  "length l \<le> length x \<Longrightarrow> prefix l (x @ y) = prefix l x"
  by (metis prefix_append prefix_order.dual_order.antisym prefix_same_cases prefixI prefix_def append_eq_append_conv_if prefix_length_le)

text \<open>A greedy repetition that can take all of \<open>u\<close> and nothing useful beyond it.\<close>

lemma greedy_rep_run:
  assumes "list_all P u" and "m \<le> length u" and "k v = Some r"
    and "greedy_rep P (Suc 0) k v = None"
  shows "greedy_rep P m k (u @ v) = Some r"
  using assms
proof (induction u arbitrary: m)
  case Nil
  then show ?case by (cases v) (auto split: option.splits if_splits)
next
  case (Cons c u)
  from Cons.prems have "greedy_rep P (m - 1) k (u @ v) = Some r"
    by (intro Cons.IH) auto
  with Cons.prems show ?case by simp
qed

lemma greedy_rep_stop:
  "(v = [] \<or> \<not> P (hd v)) \<Longrightarrow> greedy_rep P (Suc 0) k v = None"
  by (cases v) auto

text \<open>A lazy repetition whose continuation first succeeds after \<open>u\<close>.\<close>

lemma lazy_rep_run:
  assumes "list_all P u" and "k v = Some r"
    and "\<And>i. i < length u \<Longrightarrow> k (drop i u @ v) = None"
  shows "lazy_rep P 0 k (u @ v) = Some r"
  using assms
proof (induction u)
  case Nil
  then show ?case by (cases v) auto
next
  case (Cons c u)
  have "k (c # u @ v) = None" using Cons.prems(3) [of 0] by simp
  moreover have "lazy_rep P 0 k (u @ v) = Some r"
  proof (rule Cons.IH)
    show "list_all P u" using Cons.prems(1) by simp
    show "k v = Some r" by fact
    show "k (drop i u @ v) = None" if "i < length u" for i
      using Cons.prems(3) [of "Suc i"] that by simp
  qed
  ultimately show ?case using Cons.prems(1) by simp
qed

lemma noStart_drop: "noStart l u \<Longrightarrow> i < length u \<Longrightarrow> \<not> prefix l (drop i u @ l)"
proof (induction u arbitrary: i)
  case Nil
  then show ?case by simp
next
  case (Cons c u)
  then show ?case by (cases i) auto
qed

lemma noStart_no_prefix:
  assumes "noStart l u" and "i < length u"
  shows "\<not> prefix l (drop i u @ l @ x)"
proof -
  have "length l \<le> length (drop i u @ l)" by simp
  then have "prefix l ((drop i u @ l) @ x) = prefix l (drop i u @ l)"
    by (rule prefix_append_longer)
  with noStart_drop [OF assms] show ?thesis by simp
qed

text \<open>Text in which no match starts is copied.\<close>

lemma replace_all_skip:
  assumes "\<And>i. i < length u \<Longrightarrow> rxmatch p ([], []) (drop i u @ s) = None"
  shows "replace_all p f (u @ s) = u @ replace_all p f s"
  using assms
proof (induction u)
  case Nil
  show ?case by simp
next
  case (Cons c u)
  have "rxmatch p ([], []) (c # u @ s) = None" using Cons.prems [of 0] by simp
  moreover have "replace_all p f (u @ s) = u @ replace_all p f s"
  proof (rule Cons.IH)
    show "rxmatch p ([], []) (drop i u @ s) = None" if "i < length u" for i
      using Cons.prems [of "Suc i"] that by simp
  qed
  ultimately show ?case by simp
qed

lemma replace_all_match:
  assumes "rxmatch p ([], []) (t @ s) = Some (s, g)" and "t \<noteq> []"
  shows "replace_all p f (t @ s) = f t g @ replace_all p f s"
proof -
  obtain c t' where t: "t = c # t'" using assms(2) by (cases t) auto
  with assms(1) show ?thesis by simp
qed

lemma greedy_rep_sound:
  "greedy_rep P m k s = Some r \<Longrightarrow>
     \<exists>u v. s = u @ v \<and> list_all P u \<and> m \<le> length u \<and> k v = Some r"
proof (induction s arbitrary: m)
  case Nil
  then show ?case by (auto split: if_splits)
next
  case (Cons c s)
  show ?case
  proof (cases "P c \<and> greedy_rep P (m - 1) k s = Some r")
    case True
    with Cons.IH [of "m - 1"] obtain u v
      where "s = u @ v" "list_all P u" "m - 1 \<le> length u" "k v = Some r" by blast
    with True have "c # s = (c # u) @ v \<and> list_all P (c # u) \<and> m \<le> length (c # u) \<and> k v = Some r"
      by auto
    then show ?thesis by blast
  next
    case False
    with Cons.prems have "m = 0 \<and> k (c # s) = Some r"
      by (auto split: if_splits option.splits)
    then have "c # s = [] @ (c # s) \<and> list_all P [] \<and> m \<le> length ([]::string) \<and> k (c # s) = Some r"
      by simp
    then show ?thesis by blast
  qed
qed

lemma lazy_rep_sound:
  "lazy_rep P m k s = Some r \<Longrightarrow>
     \<exists>u v. s = u @ v \<and> list_all P u \<and> m \<le> length u \<and> k v = Some r"
proof (induction s arbitrary: m)
  case Nil
  then show ?case by (auto split: if_splits)
next
  case (Cons c s)
  show ?case
  proof (cases "m = 0 \<and> k (c # s) = Some r")
    case True
    then have "c # s = [] @ (c # s) \<and> list_all P [] \<and> m \<le> length ([]::string) \<and> k (c # s) = Some r"
      by simp
    then show ?thesis by blast
  next
    case False
    with Cons.prems have "P c \<and> lazy_rep P (m - 1) k s = Some r"
      by (auto split: if_splits option.splits)
    with Cons.IH [of "m - 1"] obtain u v
      where "s = u @ v" "list_all P u" "m - 1 \<le> length u" "k v = Some r" "P c" by blast
    then have "c # s = (c # u) @ v \<and> list_all P (c # u) \<and> m \<le> length (c # u) \<and> k v = Some r"
      by auto
    then show ?thesis by blast
  qed
qed

lemma rxsearch_sound:
  "rxsearch p s = Some r \<Longrightarrow> \<exists>pre t. s = pre @ t \<and> rxmatch p ([], []) t = Some r"
proof (induction s)
  case Nil
  then show ?case by simp
next
  case (Cons c s)
  show ?case
  proof (cases "rxmatch p ([], []) (c # s)")
    case None
    with Cons obtain pre t where "s = pre @ t" "rxmatch p ([], []) t = Some r" by auto
    then have "c # s = (c # pre) @ t \<and> rxmatch p ([], []) t = Some r" by simp
    then show ?thesis by blast
  next
    case (Some a)
    with Cons.prems have "c # s = [] @ (c # s) \<and> rxmatch p ([], []) (c # s) = Some r" by simp
    then show ?thesis by blast
  qed
qed

subsection \<open>The two patterns of the compositor\<close>

lemma link_tail:
  \<open>CHR ''>'' \<notin> set trail \<Longrightarrow>
    rxmatch [Greedy (Not (CHR ''>'')) 0, Lit ''>''] g (trail @ ''>'' @ post) = Some (post, snd g)\<close>
proof -
  assume a: \<open>CHR ''>'' \<notin> set trail\<close>
  have \<open>greedy_rep (cls_ok (Not (CHR ''>''))) 0 (rxmatch [Lit ''>''] g) (trail @ (''>'' @ post))
        = Some (post, snd g)\<close>
    by (rule greedy_rep_run) (use a in \<open>auto simp: list_all_iff\<close>)
  then show ?thesis by simp
qed

lemma link_group:
  assumes \<open>nm \<noteq> []\<close> and \<open>CHR ''"'' \<notin> set nm\<close> and \<open>CHR ''>'' \<notin> set trail\<close>
  shows \<open>rxmatch [GroupOpen, Greedy (Not (CHR ''"'')) 1, Lit ''.css'', GroupClose,
                  Lit ''"'', Greedy (Not (CHR ''>'')) 0, Lit ''>''] g
            (nm @ ''.css"'' @ trail @ ''>'' @ post)
          = Some (post, nm @ ''.css'')\<close>
proof -
  let ?s = \<open>nm @ ''.css"'' @ trail @ ''>'' @ post\<close>
  let ?k = \<open>rxmatch [Lit ''.css'', GroupClose, Lit ''"'', Greedy (Not (CHR ''>'')) 0, Lit ''>'']
              (?s, snd g)\<close>
  have tail: \<open>?k (''.css"'' @ trail @ ''>'' @ post) = Some (post, nm @ ''.css'')\<close>
    using link_tail [OF assms(3), of \<open>(?s, nm @ ''.css'')\<close> post] by simp
  have \<open>greedy_rep (cls_ok (Not (CHR ''"''))) 1 ?k (nm @ (''.css"'' @ trail @ ''>'' @ post))
        = Some (post, nm @ ''.css'')\<close>
  proof (rule greedy_rep_run)
    show \<open>list_all (cls_ok (Not (CHR ''"''))) nm\<close> using assms(2) by (auto simp: list_all_iff)
    show "1 \<le> length nm" using assms(1) by (cases nm) auto
    show \<open>?k (''.css"'' @ trail @ ''>'' @ post) = Some (post, nm @ ''.css'')\<close> by (rule tail)
    show \<open>greedy_rep (cls_ok (Not (CHR ''"''))) (Suc 0) ?k (''.css"'' @ trail @ ''>'' @ post) = None\<close>
      by simp
  qed
  then show ?thesis by simp
qed

lemma link_match:
  assumes \<open>ws \<noteq> []\<close> and \<open>list_all isSpace ws\<close>
    and \<open>list_all (\<lambda>c. \<not> isLineTerminator c) attrs\<close>
    and \<open>noStart ''href="'' (ws @ attrs)\<close>
    and \<open>nm \<noteq> []\<close> and \<open>CHR ''"'' \<notin> set nm\<close> and \<open>CHR ''>'' \<notin> set trail\<close>
  shows \<open>rxmatch linkRegex g (''<link'' @ ws @ attrs @ ''href="'' @ nm @ ''.css"'' @ trail @ ''>'' @ post)
          = Some (post, nm @ ''.css'')\<close>
proof -
  let ?rest = \<open>nm @ ''.css"'' @ trail @ ''>'' @ post\<close>
  let ?k2 = \<open>rxmatch [Lit ''href="'', GroupOpen, Greedy (Not (CHR ''"'')) 1, Lit ''.css'',
                     GroupClose, Lit ''"'', Greedy (Not (CHR ''>'')) 0, Lit ''>''] g\<close>
  let ?k1 = \<open>rxmatch [Lazy Dot 0, Lit ''href="'', GroupOpen, Greedy (Not (CHR ''"'')) 1, Lit ''.css'',
                     GroupClose, Lit ''"'', Greedy (Not (CHR ''>'')) 0, Lit ''>''] g\<close>
  let ?a1 = "takeWhile isSpace attrs" and ?a2 = "dropWhile isSpace attrs"
  have k2_end: \<open>?k2 (''href="'' @ ?rest) = Some (post, nm @ ''.css'')\<close>
    using link_group [OF assms(5,6,7), of g post] by simp
  have ns: \<open>noStart ''href="'' ?a2\<close>
  proof -
    have "ws @ attrs = (ws @ ?a1) @ ?a2" by simp
    with assms(4) show ?thesis using noStart_append by metis
  qed
  have k2_fail: \<open>?k2 (drop i ?a2 @ ''href="'' @ ?rest) = None\<close> if "i < length ?a2" for i
    using noStart_no_prefix [OF ns that, of ?rest] by simp
  have \<open>lazy_rep (cls_ok Dot) 0 ?k2 (?a2 @ ''href="'' @ ?rest) = Some (post, nm @ ''.css'')\<close>
  proof (rule lazy_rep_run)
    show "list_all (cls_ok Dot) ?a2"
      using assms(3) by (auto simp: list_all_iff dest: set_dropWhileD)
    show \<open>?k2 (''href="'' @ ?rest) = Some (post, nm @ ''.css'')\<close> by (rule k2_end)
    show \<open>?k2 (drop i ?a2 @ ''href="'' @ ?rest) = None\<close> if "i < length ?a2" for i
      by (rule k2_fail [OF that])
  qed
  then have lazy: \<open>?k1 (?a2 @ ''href="'' @ ?rest) = Some (post, nm @ ''.css'')\<close>
    by simp
  have stop: \<open>greedy_rep (cls_ok Space) (Suc 0) ?k1 (?a2 @ ''href="'' @ ?rest) = None\<close>
  proof (rule greedy_rep_stop)
    show \<open>?a2 @ ''href="'' @ ?rest = [] \<or> \<not> cls_ok Space (hd (?a2 @ ''href="'' @ ?rest))\<close>
    proof (cases "?a2 = []")
      case True
      have \<open>hd (?a2 @ ''href="'' @ ?rest) = CHR ''h''\<close> unfolding True by simp
      then show ?thesis by (simp only: cls_ok.simps) (simp add: isSpace_def)
    next
      case False
      then have "\<not> isSpace (hd ?a2)" by (rule hd_dropWhile)
      moreover have \<open>hd (?a2 @ ''href="'' @ ?rest) = hd ?a2\<close> using False by (rule hd_append2)
      ultimately show ?thesis by (simp only: cls_ok.simps) simp
    qed
  qed
  have \<open>greedy_rep (cls_ok Space) 1 ?k1 ((ws @ ?a1) @ (?a2 @ ''href="'' @ ?rest))
        = Some (post, nm @ ''.css'')\<close>
  proof (rule greedy_rep_run)
    show "list_all (cls_ok Space) (ws @ ?a1)"
      using assms(2) by (auto simp: list_all_iff dest: set_takeWhileD)
    show "1 \<le> length (ws @ ?a1)" using assms(1) by (cases ws) auto
    show \<open>?k1 (?a2 @ ''href="'' @ ?rest) = Some (post, nm @ ''.css'')\<close> by (rule lazy)
    show \<open>greedy_rep (cls_ok Space) (Suc 0) ?k1 (?a2 @ ''href="'' @ ?rest) = None\<close> by (rule stop)
  qed
  moreover have \<open>(ws @ ?a1) @ (?a2 @ ''href="'' @ ?rest) = ws @ attrs @ ''href="'' @ ?rest\<close>
    by (metis append_assoc takeWhile_dropWhile_id)
  ultimately have \<open>greedy_rep (cls_ok Space) 1 ?k1 (ws @ attrs @ ''href="'' @ ?rest)
        = Some (post, nm @ ''.css'')\<close>
    by (simp only:)
  then show ?thesis by (simp add: linkRegex_def)
qed

lemma script_tail:
  \<open>CHR ''>'' \<notin> set trail \<Longrightarrow>
    rxmatch [Greedy (Not (CHR ''>'')) 0, Lit ''></script>''] g (trail @ ''></script>'' @ post) = Some (post, snd g)\<close>
proof -
  assume a: \<open>CHR ''>'' \<notin> set trail\<close>
  have \<open>greedy_rep (cls_ok (Not (CHR ''>''))) 0 (rxmatch [Lit ''></script>''] g) (trail @ (''></script>'' @ post))
        = Some (post, snd g)\<close>
    by (rule greedy_rep_run) (use a in \<open>auto simp: list_all_iff\<close>)
  then show ?thesis by simp
qed

lemma script_group:
  assumes \<open>nm \<noteq> []\<close> and \<open>CHR ''"'' \<notin> set nm\<close> and \<open>CHR ''>'' \<notin> set trail\<close>
  shows \<open>rxmatch [GroupOpen, Greedy (Not (CHR ''"'')) 1, Lit ''.js'', GroupClose,
                  Lit ''"'', Greedy (Not (CHR ''>'')) 0, Lit ''></script>''] g
            (nm @ ''.js"'' @ trail @ ''></script>'' @ post)
          = Some (post, nm @ ''.js'')\<close>
proof -
  let ?s = \<open>nm @ ''.js"'' @ trail @ ''></script>'' @ post\<close>
  let ?k = \<open>rxmatch [Lit ''.js'', GroupClose, Lit ''"'', Greedy (Not (CHR ''>'')) 0, Lit ''></script>'']
              (?s, snd g)\<close>
  have tail: \<open>?k (''.js"'' @ trail @ ''></script>'' @ post) = Some (post, nm @ ''.js'')\<close>
    using script_tail [OF assms(3), of \<open>(?s, nm @ ''.js'')\<close> post] by simp
  have \<open>greedy_rep (cls_ok (Not (CHR ''"''))) 1 ?k (nm @ (''.js"'' @ trail @ ''></script>'' @ post))
        = Some (post, nm @ ''.js'')\<close>
  proof (rule greedy_rep_run)
    show \<open>list_all (cls_ok (Not (CHR ''"''))) nm\<close> using assms(2) by (auto simp: list_all_iff)
    show "1 \<le> length nm" using assms(1) by (cases nm) auto
    show \<open>?k (''.js"'' @ trail @ ''></script>'' @ post) = Some (post, nm @ ''.js'')\<close> by (rule tail)
    show \<open>greedy_rep (cls_ok (Not (CHR ''"''))) (Suc 0) ?k (''.js"'' @ trail @ ''></script>'' @ post) = None\<close>
      by simp
  qed
  then show ?thesis by simp
qed

lemma script_match:
  assumes \<open>ws \<noteq> []\<close> and \<open>list_all isSpace ws\<close>
    and \<open>list_all (\<lambda>c. \<not> isLineTerminator c) attrs\<close>
    and \<open>noStart ''src="'' (ws @ attrs)\<close>
    and \<open>nm \<noteq> []\<close> and \<open>CHR ''"'' \<notin> set nm\<close> and \<open>CHR ''>'' \<notin> set trail\<close>
  shows \<open>rxmatch scriptRegex g (''<script'' @ ws @ attrs @ ''src="'' @ nm @ ''.js"'' @ trail @ ''></script>'' @ post)
          = Some (post, nm @ ''.js'')\<close>
proof -
  let ?rest = \<open>nm @ ''.js"'' @ trail @ ''></script>'' @ post\<close>
  let ?k2 = \<open>rxmatch [Lit ''src="'', GroupOpen, Greedy (Not (CHR ''"'')) 1, Lit ''.js'',
                     GroupClose, Lit ''"'', Greedy (Not (CHR ''>'')) 0, Lit ''></script>''] g\<close>
  let ?k1 = \<open>rxmatch [Lazy Dot 0, Lit ''src="'', GroupOpen, Greedy (Not (CHR ''"'')) 1, Lit ''.js'',
                     GroupClose, Lit ''"'', Greedy (Not (CHR ''>'')) 0, Lit ''></script>''] g\<close>
  let ?a1 = "takeWhile isSpace attrs" and ?a2 = "dropWhile isSpace attrs"
  have k2_end: \<open>?k2 (''src="'' @ ?rest) = Some (post, nm @ ''.js'')\<close>
    using script_group [OF assms(5,6,7), of g post] by simp
  have ns: \<open>noStart ''src="'' ?a2\<close>
  proof -
    have "ws @ attrs = (ws @ ?a1) @ ?a2" by simp
    with assms(4) show ?thesis using noStart_append by metis
  qed
  have k2_fail: \<open>?k2 (drop i ?a2 @ ''src="'' @ ?rest) = None\<close> if "i < length ?a2" for i
    using noStart_no_prefix [OF ns that, of ?rest] by simp
  have \<open>lazy_rep (cls_ok Dot) 0 ?k2 (?a2 @ ''src="'' @ ?rest) = Some (post, nm @ ''.js'')\<close>
  proof (rule lazy_rep_run)
    show "list_all (cls_ok Dot) ?a2"
      using assms(3) by (auto simp: list_all_iff dest: set_dropWhileD)
    show \<open>?k2 (''src="'' @ ?rest) = Some (post, nm @ ''.js'')\<close> by (rule k2_end)
    show \<open>?k2 (drop i ?a2 @ ''src="'' @ ?rest) = None\<close> if "i < length ?a2" for i
      by (rule k2_fail [OF that])
  qed
  then have lazy: \<open>?k1 (?a2 @ ''src="'' @ ?rest) = Some (post, nm @ ''.js'')\<close>
    by simp
  have stop: \<open>greedy_rep (cls_ok Space) (Suc 0) ?k1 (?a2 @ ''src="'' @ ?rest) = None\<close>
  proof (rule greedy_rep_stop)
    show \<open>?a2 @ ''src="'' @ ?rest = [] \<or> \<not> cls_ok Space (hd (?a2 @ ''src="'' @ ?rest))\<close>
    proof (cases "?a2 = []")
      case True
      have \<open>hd (?a2 @ ''src="'' @ ?rest) = CHR ''s''\<close> unfolding True by simp
      then show ?thesis by (simp only: cls_ok.simps) (simp add: isSpace_def)
    next
      case False
      then have "\<not> isSpace (hd ?a2)" by (rule hd_dropWhile)
      moreover have \<open>hd (?a2 @ ''src="'' @ ?rest) = hd ?a2\<close> using False by (rule hd_append2)
      ultimately show ?thesis by (simp only: cls_ok.simps) simp
    qed
  qed
  have \<open>greedy_rep (cls_ok Space) 1 ?k1 ((ws @ ?a1) @ (?a2 @ ''src="'' @ ?rest))
        = Some (post, nm @ ''.js'')\<close>
  proof (rule greedy_rep_run)
    show "list_all (cls_ok Space) (ws @ ?a1)"
      using assms(2) by (auto simp: list_all_iff dest: set_takeWhileD)
    show "1 \<le> length (ws @ ?a1)" using assms(1) by (cases ws) auto
    show \<open>?k1 (?a2 @ ''src="'' @ ?rest) = Some (post, nm @ ''.js'')\<close> by (rule lazy)
    show \<open>greedy_rep (cls_ok Space) (Suc 0) ?k1 (?a2 @ ''src="'' @ ?rest) = None\<close> by (rule stop)
  qed
  moreover have \<open>(ws @ ?a1) @ (?a2 @ ''src="'' @ ?rest) = ws @ attrs @ ''src="'' @ ?rest\<close>
    by (metis append_assoc takeWhile_dropWhile_id)
  ultimately have \<open>greedy_rep (cls_ok Space) 1 ?k1 (ws @ attrs @ ''src="'' @ ?rest)
        = Some (post, nm @ ''.js'')\<close>
    by (simp only:)
  then show ?thesis by (simp add: scriptRegex_def)
qed

lemma noMatchBefore_drop:
  "noMatchBefore p u s \<Longrightarrow> i < length u \<Longrightarrow> rxmatch p ([], []) (drop i u @ s) = None"
proof (induction u arbitrary: i)
  case Nil
  then show ?case by simp
next
  case (Cons c u)
  then show ?case by (cases i) auto
qed

lemma replace_all_at:
  assumes "noMatchBefore p pre (t @ post)"
    and "rxmatch p ([], []) (t @ post) = Some (post, grp)"
    and "t \<noteq> []"
  shows "replace_all p f (pre @ t @ post) = pre @ f t grp @ replace_all p f post"
proof -
  have "replace_all p f (pre @ (t @ post)) = pre @ replace_all p f (t @ post)"
    by (rule replace_all_skip) (rule noMatchBefore_drop [OF assms(1)])
  moreover have "replace_all p f (t @ post) = f t grp @ replace_all p f post"
    using assms(2,3) by (rule replace_all_match)
  ultimately show ?thesis by simp
qed

lemma noStart_noMatchBefore:
  assumes "noStart opn pre" and "\<And>s. \<not> prefix opn s \<Longrightarrow> rxmatch p ([], []) s = None"
  shows "noMatchBefore p pre (opn @ x)"
  using assms(1)
proof (induction pre)
  case Nil
  show ?case by simp
next
  case (Cons c pre)
  then have "\<not> prefix opn (c # pre @ opn)" and "noStart opn pre" by simp_all
  then have "\<not> prefix opn ((c # pre @ opn) @ x)"
    using prefix_append_longer [of opn "c # pre @ opn" x] by simp
  then have "rxmatch p ([], []) (c # pre @ opn @ x) = None" using assms(2) by simp
  with Cons.IH \<open>noStart opn pre\<close> show ?case by simp
qed

lemma linkRegex_needs_open: \<open>\<not> prefix ''<link'' s \<Longrightarrow> rxmatch linkRegex g s = None\<close>
  by (simp add: linkRegex_def)

lemma scriptRegex_needs_open: \<open>\<not> prefix ''<script'' s \<Longrightarrow> rxmatch scriptRegex g s = None\<close>
  by (simp add: scriptRegex_def)

text \<open>No match begins in a text in which the opening literal does not begin.\<close>

lemma noStart_link: \<open>noStart ''<link'' pre \<Longrightarrow> noMatchBefore linkRegex pre (''<link'' @ x)\<close>
  by (rule noStart_noMatchBefore) (simp_all add: linkRegex_needs_open)

lemma noStart_script: \<open>noStart ''<script'' pre \<Longrightarrow> noMatchBefore scriptRegex pre (''<script'' @ x)\<close>
  by (rule noStart_noMatchBefore) (simp_all add: scriptRegex_needs_open)

lemma getPreviewContent_passes:
  assumes "find (\<lambda>f. name f = page) files = Some pageFile" and "endsWith (name pageFile) ''.html''"
  shows "getPreviewContent (Some files) page =
           String_replace (inlineScripts files (inlineStyles files (content pageFile)))
             ''</body>'' (navigationScript (allFilesForNav files) @ ''</body>'')"
proof -
  from assms(1) have "files \<noteq> []" by auto
  with assms show ?thesis by (simp add: getPreviewContent_def)
qed

subsection \<open>The injection of the navigation script\<close>

lemma getSubstitution_Cons_plain:
  "c \<noteq> CHR ''$'' \<Longrightarrow> getSubstitution m b a (c # r) = c # getSubstitution m b a r"
  by (cases r) auto

lemma getSubstitution_plain_prefix:
  "CHR ''$'' \<notin> set u \<Longrightarrow> getSubstitution m b a (u @ r) = u @ getSubstitution m b a r"
  by (induction u) (auto simp: getSubstitution_Cons_plain)

lemma getSubstitution_plain: "CHR ''$'' \<notin> set r \<Longrightarrow> getSubstitution m b a r = r"
  using getSubstitution_plain_prefix [of r m b a "[]"] by simp

lemma getSubstitution_dollar_dollar:
  "getSubstitution m b a (CHR ''$'' # CHR ''$'' # r) = CHR ''$'' # getSubstitution m b a r"
  by simp

lemma navigationScript_before_plain: "CHR ''$'' \<notin> set navigationScript_before"
  by (simp add: navigationScript_before_def)

lemma navigationScript_after_plain: "CHR ''$'' \<notin> set navigationScript_after"
  by (simp add: navigationScript_after_def)

lemma String_replace_first:
  "splitFirst pat s = Some (b, a) \<Longrightarrow> String_replace s pat r = b @ getSubstitution pat b a r @ a"
  by (simp add: String_replace_def)

lemma splitFirst_first:
  "pat \<noteq> [] \<Longrightarrow> noStart pat b \<Longrightarrow> splitFirst pat (b @ pat @ a) = Some (b, a)"
proof (induction b)
  case Nil
  then show ?case by (cases pat) auto
next
  case (Cons c b)
  from Cons.prems have "\<not> prefix pat (c # b @ pat)" by simp
  then have "\<not> prefix pat ((c # b @ pat) @ a)"
    using prefix_append_longer [of pat "c # b @ pat" a] by simp
  with Cons show ?case by simp
qed

lemma not_sublist_splitFirst: "\<not> sublist pat s \<Longrightarrow> splitFirst pat s = None"
proof (induction s)
  case Nil
  then show ?case by auto
next
  case (Cons c s)
  then show ?case by (auto simp: sublist_Cons_right)
qed

lemma splitFirst_None: "splitFirst pat s = None \<Longrightarrow> \<not> sublist pat s"
proof (induction s)
  case Nil
  then show ?case by (auto split: if_splits)
next
  case (Cons c s)
  then show ?case by (auto simp: sublist_Cons_right split: if_splits)
qed

lemma quoteJSONChar_plain: "c \<noteq> CHR ''$'' \<Longrightarrow> CHR ''$'' \<notin> set (quoteJSONChar c)"
proof -
  have h: "hexDigit n \<noteq> CHR ''$''" for n
  proof -
    have "hexDigit n \<in> set ''0123456789abcdef''"
      unfolding hexDigit_def by (rule nth_mem) simp
    then show ?thesis by auto
  qed
  assume "c \<noteq> CHR ''$''"
  then show ?thesis using h [of "of_char c div 16"] h [of "of_char c mod 16"]
    by (auto simp: quoteJSONChar_def backslash_def)
qed

lemma quoteJSONString_plain: "CHR ''$'' \<notin> set s \<Longrightarrow> CHR ''$'' \<notin> set (quoteJSONString s)"
  by (induction s) (auto simp: quoteJSONString_def quoteJSONChar_plain)

lemma joinComma_plain:
  "\<forall>x\<in>set xs. CHR ''$'' \<notin> set x \<Longrightarrow> CHR ''$'' \<notin> set (joinComma xs)"
  by (induction xs rule: joinComma.induct) auto

lemma allFilesForNav_plain:
  assumes "\<And>f. f \<in> set files \<Longrightarrow> endsWith (name f) ''.html'' \<Longrightarrow>
             CHR ''$'' \<notin> set (name f) \<and> CHR ''$'' \<notin> set (content f)"
  shows "CHR ''$'' \<notin> set (allFilesForNav files)"
proof -
  have "CHR ''$'' \<notin> set (stringifyPage f)"
    if "f \<in> set files" "endsWith (name f) ''.html''" for f
    using assms [OF that] by (simp add: stringifyPage_def quoteJSONString_plain)
  then have "CHR ''$'' \<notin> set (joinComma (map stringifyPage (filter (\<lambda>f. endsWith (name f) ''.html'') files)))"
    by (intro joinComma_plain) auto
  then show ?thesis by (simp add: allFilesForNav_def JSON_stringify_def)
qed

text \<open>When no page of the table holds a dollar sign, the script goes in unchanged.\<close>

lemma getPreviewContent_injects_script:
  assumes "find (\<lambda>f. name f = page) files = Some pageFile" and "endsWith (name pageFile) ''.html''"
    and "inlineScripts files (inlineStyles files (content pageFile)) = b @ ''</body>'' @ a"
    and "noStart ''</body>'' b"
    and "\<And>f. f \<in> set files \<Longrightarrow> endsWith (name f) ''.html'' \<Longrightarrow>
             CHR ''$'' \<notin> set (name f) \<and> CHR ''$'' \<notin> set (content f)"
  shows "getPreviewContent (Some files) page
         = b @ navigationScript (allFilesForNav files) @ ''</body>'' @ a"
proof -
  have "CHR ''$'' \<notin> set (navigationScript (allFilesForNav files) @ ''</body>'')"
    using allFilesForNav_plain [of files] assms(5)
    by (simp add: navigationScript_def navigationScript_before_plain navigationScript_after_plain)
  then have "getSubstitution ''</body>'' b a (navigationScript (allFilesForNav files) @ ''</body>'')
             = navigationScript (allFilesForNav files) @ ''</body>''"
    by (rule getSubstitution_plain)
  moreover have "splitFirst ''</body>'' (b @ ''</body>'' @ a) = Some (b, a)"
    using assms(4) by (intro splitFirst_first) auto
  ultimately show ?thesis
    using getPreviewContent_passes [OF assms(1,2)] assms(3)
    by (simp add: String_replace_first del: splitFirst.simps)
qed

lemma getPreviewContent_without_body:
  assumes "find (\<lambda>f. name f = page) files = Some pageFile" and "endsWith (name pageFile) ''.html''"
    and "\<not> sublist ''</body>'' (inlineScripts files (inlineStyles files (content pageFile)))"
  shows "getPreviewContent (Some files) page
         = inlineScripts files (inlineStyles files (content pageFile))"
  using getPreviewContent_passes [OF assms(1,2)] not_sublist_splitFirst [OF assms(3)]
  by (simp add: String_replace_def)

text \<open>
  The injection takes the first \<open></body>\<close> of the inlined markup, wherever it stands: here
  the page has none, the inlined script has one inside a string, and the navigation script
  lands in that string.
\<close>

lemma injection_inside_inlined_script:
  \<open>getPreviewContent
      (Some [\<lparr>name = ''index.html'', content = ''<script src="a.js"></script>''\<rparr>,
             \<lparr>name = ''a.js'', content = ''x="</body>"''\<rparr>])
      ''index.html''
    = ''<script>\<newline>x="'' @
      navigationScript
        (allFilesForNav [\<lparr>name = ''index.html'', content = ''<script src="a.js"></script>''\<rparr>,
                         \<lparr>name = ''a.js'', content = ''x="</body>"''\<rparr>]) @
      ''</body>"\<newline></script>''\<close>
proof -
  let ?index = \<open>\<lparr>name = ''index.html'', content = ''<script src="a.js"></script>''\<rparr>\<close>
  let ?fs = \<open>[?index, \<lparr>name = ''a.js'', content = ''x="</body>"''\<rparr>]\<close>
  have \<open>getPreviewContent (Some ?fs) ''index.html''
        = ''<script>\<newline>x="'' @ navigationScript (allFilesForNav ?fs) @ ''</body>'' @
          ''"\<newline></script>''\<close>
  proof (rule getPreviewContent_injects_script)
    show \<open>find (\<lambda>f. name f = ''index.html'') ?fs = Some ?index\<close> by simp
    show \<open>endsWith (name ?index) ''.html''\<close> by (simp add: endsWith_def suffix_to_prefix)
    show \<open>inlineScripts ?fs (inlineStyles ?fs (content ?index))
          = ''<script>\<newline>x="'' @ ''</body>'' @ ''"\<newline></script>''\<close>
      by (simp add: inlineStyles_def inlineScripts_def linkRegex_def scriptRegex_def
          scriptBlock_def isSpace_def isLineTerminator_def)
    show \<open>noStart ''</body>'' ''<script>\<newline>x="''\<close> by simp
    show \<open>CHR ''$'' \<notin> set (name f) \<and> CHR ''$'' \<notin> set (content f)\<close>
      if \<open>f \<in> set ?fs\<close> for f
      using that by auto
  qed
  then show ?thesis by simp
qed

subsection \<open>Inlining\<close>

text \<open>
  C1, amended.  \<open>getPreviewContent\<close> runs the stylesheet pass over the page's markup, the
  script pass over the result, and then the injection.  The stylesheet pass works from left
  to right.  A piece of text that is \<open><link\<close>, white space, text on one line that holds
  neither \<open>>\<close> nor an earlier \<open>href="\<close>, then \<open>href="NAME.css"\<close> with a non-empty quote-free
  \<open>NAME\<close>, then text without \<open>>\<close>, then \<open>>\<close>, and before which no match of the pattern begins,
  is replaced by a style block that holds the content of the file \<open>NAME.css\<close> verbatim when
  the file list has such a file, and is left unchanged when it has not; the text before it
  is kept and the pass goes on behind it.  The script pass does the same with \<open><script\<close>,
  \<open>src="NAME.js"\<close> and \<open>></script>\<close>.  Nothing is said here of text of any other form.
\<close>

theorem inline_reference_law:
  assumes \<open>ws \<noteq> []\<close> and \<open>list_all isSpace ws\<close>
    and \<open>list_all (\<lambda>c. \<not> isLineTerminator c) attrs\<close>
    and \<open>nm \<noteq> []\<close> and \<open>CHR ''"'' \<notin> set nm\<close> and \<open>CHR ''>'' \<notin> set trail\<close>
    and \<open>CHR ''>'' \<notin> set attrs\<close>
  shows \<open>(find (\<lambda>f. name f = page) files = Some pageFile \<and> endsWith (name pageFile) ''.html'' \<longrightarrow>
           getPreviewContent (Some files) page
           = String_replace (inlineScripts files (inlineStyles files (content pageFile)))
               ''</body>'' (navigationScript (allFilesForNav files) @ ''</body>''))
        \<and> (noStart ''href="'' (ws @ attrs) \<and>
           noMatchBefore linkRegex pre
             ((''<link'' @ ws @ attrs @ ''href="'' @ nm @ ''.css"'' @ trail @ ''>'') @ post) \<longrightarrow>
           inlineStyles files
             (pre @ (''<link'' @ ws @ attrs @ ''href="'' @ nm @ ''.css"'' @ trail @ ''>'') @ post)
           = pre @
             (case find (\<lambda>f. name f = nm @ ''.css'') files of
                Some cssFile \<Rightarrow> ''<style>\<newline>'' @ content cssFile @ ''\<newline></style>''
              | None \<Rightarrow> ''<link'' @ ws @ attrs @ ''href="'' @ nm @ ''.css"'' @ trail @ ''>'') @
             inlineStyles files post)
        \<and> (noStart ''src="'' (ws @ attrs) \<and>
           noMatchBefore scriptRegex pre
             ((''<script'' @ ws @ attrs @ ''src="'' @ nm @ ''.js"'' @ trail @ ''></script>'') @ post) \<longrightarrow>
           inlineScripts files
             (pre @ (''<script'' @ ws @ attrs @ ''src="'' @ nm @ ''.js"'' @ trail @ ''></script>'') @ post)
           = pre @
             (case find (\<lambda>f. name f = nm @ ''.js'') files of
                Some jsFile \<Rightarrow> ''<script>\<newline>'' @ content jsFile @ ''\<newline></script>''
              | None \<Rightarrow> ''<script'' @ ws @ attrs @ ''src="'' @ nm @ ''.js"'' @ trail @ ''></script>'') @
             inlineScripts files post)\<close>
proof (intro conjI impI)
  assume \<open>find (\<lambda>f. name f = page) files = Some pageFile \<and> endsWith (name pageFile) ''.html''\<close>
  then show \<open>getPreviewContent (Some files) page
           = String_replace (inlineScripts files (inlineStyles files (content pageFile)))
               ''</body>'' (navigationScript (allFilesForNav files) @ ''</body>'')\<close>
    by (simp add: getPreviewContent_passes)
next
  let ?t = \<open>''<link'' @ ws @ attrs @ ''href="'' @ nm @ ''.css"'' @ trail @ ''>''\<close>
  assume a: \<open>noStart ''href="'' (ws @ attrs) \<and> noMatchBefore linkRegex pre (?t @ post)\<close>
  have m: \<open>rxmatch linkRegex ([], []) (?t @ post) = Some (post, nm @ ''.css'')\<close>
    using link_match [OF assms(1,2,3) _ assms(4,5,6), of \<open>([], [])\<close> post] a by simp
  have \<open>replace_all linkRegex f (pre @ ?t @ post)
        = pre @ f ?t (nm @ ''.css'') @ replace_all linkRegex f post\<close> for f
    using a m by (intro replace_all_at) auto
  then show \<open>inlineStyles files (pre @ ?t @ post)
           = pre @
             (case find (\<lambda>f. name f = nm @ ''.css'') files of
                Some cssFile \<Rightarrow> ''<style>\<newline>'' @ content cssFile @ ''\<newline></style>''
              | None \<Rightarrow> ?t) @
             inlineStyles files post\<close>
    by (simp add: inlineStyles_def styleBlock_def split: option.split)
next
  let ?t = \<open>''<script'' @ ws @ attrs @ ''src="'' @ nm @ ''.js"'' @ trail @ ''></script>''\<close>
  assume a: \<open>noStart ''src="'' (ws @ attrs) \<and> noMatchBefore scriptRegex pre (?t @ post)\<close>
  have m: \<open>rxmatch scriptRegex ([], []) (?t @ post) = Some (post, nm @ ''.js'')\<close>
    using script_match [OF assms(1,2,3) _ assms(4,5,6), of \<open>([], [])\<close> post] a by simp
  have \<open>replace_all scriptRegex f (pre @ ?t @ post)
        = pre @ f ?t (nm @ ''.js'') @ replace_all scriptRegex f post\<close> for f
    using a m by (intro replace_all_at) auto
  then show \<open>inlineScripts files (pre @ ?t @ post)
           = pre @
             (case find (\<lambda>f. name f = nm @ ''.js'') files of
                Some jsFile \<Rightarrow> ''<script>\<newline>'' @ content jsFile @ ''\<newline></script>''
              | None \<Rightarrow> ?t) @
             inlineScripts files post\<close>
    by (simp add: inlineScripts_def scriptBlock_def split: option.split)
qed

theorem inline_reference_law_witness:
  \<open>noStart ''href="'' ('' '' @ ''rel="stylesheet" '')
    \<and> noMatchBefore linkRegex ''<head>\<newline><link rel="icon" href="favicon.ico">\<newline>''
          (''<link rel="stylesheet" href="style.css">'' @
           ''\<newline></head><body><script src="app.js"></script></body>'')
    \<and> inlineStyles
         [\<lparr>name = ''index.html'',
            content = ''<head>\<newline><link rel="icon" href="favicon.ico">\<newline><link rel="stylesheet" href="style.css">\<newline></head><body><script src="app.js"></script></body>''\<rparr>,
          \<lparr>name = ''style.css'', content = ''body{color:red}''\<rparr>,
          \<lparr>name = ''app.js'', content = ''console.log(1)''\<rparr>]
         ''<head>\<newline><link rel="icon" href="favicon.ico">\<newline><link rel="stylesheet" href="style.css">\<newline></head><body><script src="app.js"></script></body>''
       = ''<head>\<newline><link rel="icon" href="favicon.ico">\<newline><style>\<newline>body{color:red}\<newline></style>\<newline></head><body><script src="app.js"></script></body>''
    \<and> inlineScripts
         [\<lparr>name = ''index.html'',
            content = ''<head>\<newline><link rel="icon" href="favicon.ico">\<newline><link rel="stylesheet" href="style.css">\<newline></head><body><script src="app.js"></script></body>''\<rparr>,
          \<lparr>name = ''style.css'', content = ''body{color:red}''\<rparr>,
          \<lparr>name = ''app.js'', content = ''console.log(1)''\<rparr>]
         ''<head>\<newline><link rel="icon" href="favicon.ico">\<newline><style>\<newline>body{color:red}\<newline></style>\<newline></head><body><script src="app.js"></script></body>''
       = ''<head>\<newline><link rel="icon" href="favicon.ico">\<newline><style>\<newline>body{color:red}\<newline></style>\<newline></head><body><script>\<newline>console.log(1)\<newline></script></body>''
    \<and> inlineStyles
         [\<lparr>name = ''style.css'', content = ''body{color:red}''\<rparr>]
         ''<head><link rel="stylesheet" href="other.css"></head>''
       = ''<head><link rel="stylesheet" href="other.css"></head>''
    \<and> getPreviewContent
         (Some [\<lparr>name = ''index.html'',
            content = ''<head>\<newline><link rel="icon" href="favicon.ico">\<newline><link rel="stylesheet" href="style.css">\<newline></head><body><script src="app.js"></script></body>''\<rparr>,
          \<lparr>name = ''style.css'', content = ''body{color:red}''\<rparr>,
          \<lparr>name = ''app.js'', content = ''console.log(1)''\<rparr>])
         ''index.html''
       = ''<head>\<newline><link rel="icon" href="favicon.ico">\<newline><style>\<newline>body{color:red}\<newline></style>\<newline></head><body><script>\<newline>console.log(1)\<newline></script>'' @
         navigationScript (allFilesForNav
           [\<lparr>name = ''index.html'',
            content = ''<head>\<newline><link rel="icon" href="favicon.ico">\<newline><link rel="stylesheet" href="style.css">\<newline></head><body><script src="app.js"></script></body>''\<rparr>,
          \<lparr>name = ''style.css'', content = ''body{color:red}''\<rparr>,
          \<lparr>name = ''app.js'', content = ''console.log(1)''\<rparr>]) @
         ''</body>''\<close>
proof -
  let ?page = \<open>''<head>\<newline><link rel="icon" href="favicon.ico">\<newline><link rel="stylesheet" href="style.css">\<newline></head><body><script src="app.js"></script></body>''\<close>
  let ?styled = \<open>''<head>\<newline><link rel="icon" href="favicon.ico">\<newline><style>\<newline>body{color:red}\<newline></style>\<newline></head><body><script src="app.js"></script></body>''\<close>
  let ?b = \<open>''<head>\<newline><link rel="icon" href="favicon.ico">\<newline><style>\<newline>body{color:red}\<newline></style>\<newline></head><body><script>\<newline>console.log(1)\<newline></script>''\<close>
  let ?index = \<open>\<lparr>name = ''index.html'', content = ?page\<rparr>\<close>
  let ?fs = \<open>[?index, \<lparr>name = ''style.css'', content = ''body{color:red}''\<rparr>,
              \<lparr>name = ''app.js'', content = ''console.log(1)''\<rparr>]\<close>
  have hyp: \<open>noStart ''href="'' ('' '' @ ''rel="stylesheet" '')
      \<and> noMatchBefore linkRegex ''<head>\<newline><link rel="icon" href="favicon.ico">\<newline>''
          (''<link rel="stylesheet" href="style.css">'' @
           ''\<newline></head><body><script src="app.js"></script></body>'')\<close>
    by (simp add: linkRegex_def isSpace_def isLineTerminator_def)
  have rest1: \<open>inlineStyles ?fs ''\<newline></head><body><script src="app.js"></script></body>''
               = ''\<newline></head><body><script src="app.js"></script></body>''\<close>
    by (simp add: inlineStyles_def linkRegex_def)
  have styles: \<open>inlineStyles ?fs ?page = ?styled\<close>
    using hyp rest1 inline_reference_law
      [where ws = \<open>'' ''\<close> and attrs = \<open>''rel="stylesheet" ''\<close> and nm = \<open>''style''\<close>
         and trail = \<open>[]\<close>
         and pre = \<open>''<head>\<newline><link rel="icon" href="favicon.ico">\<newline>''\<close>
         and post = \<open>''\<newline></head><body><script src="app.js"></script></body>''\<close>
         and page = \<open>''index.html''\<close> and pageFile = ?index and files = ?fs]
    by (simp add: isSpace_def isLineTerminator_def)
  have hyp2: \<open>noMatchBefore scriptRegex
      ''<head>\<newline><link rel="icon" href="favicon.ico">\<newline><style>\<newline>body{color:red}\<newline></style>\<newline></head><body>''
      (''<script src="app.js"></script>'' @ ''</body>'')\<close>
    by (simp add: scriptRegex_def)
  have rest2: \<open>inlineScripts ?fs ''</body>'' = ''</body>''\<close>
    by (simp add: inlineScripts_def scriptRegex_def)
  have scripts: \<open>inlineScripts ?fs ?styled = ?b @ ''</body>''\<close>
    using hyp2 rest2 inline_reference_law
      [where ws = \<open>'' ''\<close> and attrs = \<open>[]\<close> and nm = \<open>''app''\<close> and trail = \<open>[]\<close>
         and pre = \<open>''<head>\<newline><link rel="icon" href="favicon.ico">\<newline><style>\<newline>body{color:red}\<newline></style>\<newline></head><body>''\<close>
         and post = \<open>''</body>''\<close>
         and page = \<open>''index.html''\<close> and pageFile = ?index and files = ?fs]
    by (simp add: isSpace_def isLineTerminator_def)
  have missing: \<open>inlineStyles [\<lparr>name = ''style.css'', content = ''body{color:red}''\<rparr>]
         ''<head><link rel="stylesheet" href="other.css"></head>''
       = ''<head><link rel="stylesheet" href="other.css"></head>''\<close>
    using inline_reference_law
      [where ws = \<open>'' ''\<close> and attrs = \<open>''rel="stylesheet" ''\<close> and nm = \<open>''other''\<close>
         and trail = \<open>[]\<close> and pre = \<open>''<head>''\<close> and post = \<open>''</head>''\<close>
         and page = \<open>''index.html''\<close> and pageFile = ?index
         and files = \<open>[\<lparr>name = ''style.css'', content = ''body{color:red}''\<rparr>]\<close>]
    by (simp add: isSpace_def isLineTerminator_def inlineStyles_def linkRegex_def)
  have composed: \<open>getPreviewContent (Some ?fs) ''index.html''
                    = ?b @ navigationScript (allFilesForNav ?fs) @ ''</body>'' @ []\<close>
  proof (rule getPreviewContent_injects_script)
    show \<open>find (\<lambda>f. name f = ''index.html'') ?fs = Some ?index\<close> by simp
    show \<open>endsWith (name ?index) ''.html''\<close> by (simp add: endsWith_def suffix_to_prefix)
    show \<open>inlineScripts ?fs (inlineStyles ?fs (content ?index)) = ?b @ ''</body>'' @ []\<close>
      using styles scripts by simp
    show \<open>noStart ''</body>'' ?b\<close> by simp
    show \<open>CHR ''$'' \<notin> set (name f) \<and> CHR ''$'' \<notin> set (content f)\<close>
      if \<open>f \<in> set ?fs\<close> for f
      using that by auto
  qed
  from hyp styles scripts missing composed show ?thesis by simp
qed

text \<open>
  C1 as stated fails: a link element whose \<open>href\<close> is written in single quotes names the
  file \<open>style.css\<close> of the list, and is left as it is.
\<close>

theorem single_quoted_href_not_inlined:
  \<open>getPreviewContent
      (Some [\<lparr>name = ''index.html'', content = ''<link rel="stylesheet" href='style.css'>''\<rparr>,
             \<lparr>name = ''style.css'', content = ''body{color:red}''\<rparr>])
      ''index.html''
    = ''<link rel="stylesheet" href='style.css'>''\<close>
  by (simp add: getPreviewContent_def inlineStyles_def inlineScripts_def linkRegex_def scriptRegex_def
      String_replace_def endsWith_def suffix_to_prefix isSpace_def isLineTerminator_def)

text \<open>
  The lazy \<open>.*?\<close> of the pattern runs over the end of an element: a link without a
  stylesheet \<open>href\<close> that stands on the same line before a stylesheet link is part of the
  match and goes with it.
\<close>

lemma inlineStyles_takes_preceding_element:
  \<open>inlineStyles [\<lparr>name = ''style.css'', content = ''body{color:red}''\<rparr>]
      ''<link rel="preconnect" href="https://fonts.googleapis.com"><link rel="stylesheet" href="style.css">''
    = ''<style>'' @ [CHR 0x0A] @ ''body{color:red}'' @ [CHR 0x0A] @ ''</style>''\<close>
  by (simp add: inlineStyles_def linkRegex_def styleBlock_def isSpace_def isLineTerminator_def)

subsection \<open>Dollar signs in the page table\<close>

lemmas json_defs = allFilesForNav_def JSON_stringify_def stringifyPage_def quoteJSONString_def
  quoteJSONChar_def endsWith_def suffix_to_prefix backslash_def

text \<open>
  C5.  The claim: when the page's markup has a closing body tag, the composed document
  holds the navigation script right before it.  The code differs where a page holds a
  dollar sign before \<open>$\<close>, \<open>&\<close>, a backquote or a quote: the replacement text of
  \<open>String.prototype.replace\<close> is a template.  For the one page \<open><body>$$</body>\<close> the script
  put into the document is the script of another file list, whose page is \<open><body>$</body>\<close>,
  and is not the navigation script of this one.
\<close>

theorem navigation_script_dollar:
  \<open>getPreviewContent (Some [\<lparr>name = ''index.html'', content = ''<body>$$</body>''\<rparr>]) ''index.html''
     = ''<body>$$'' @
       navigationScript (allFilesForNav [\<lparr>name = ''index.html'', content = ''<body>$</body>''\<rparr>]) @
       ''</body>''
   \<and> getPreviewContent (Some [\<lparr>name = ''index.html'', content = ''<body>$$</body>''\<rparr>]) ''index.html''
     \<noteq> ''<body>$$'' @
       navigationScript (allFilesForNav [\<lparr>name = ''index.html'', content = ''<body>$$</body>''\<rparr>]) @
       ''</body>''\<close>
proof -
  let ?fs = \<open>[\<lparr>name = ''index.html'', content = ''<body>$$</body>''\<rparr>]\<close>
  let ?J = \<open>''[{"name":"index.html","content":"<body>$$</body>"}]''\<close>
  let ?J' = \<open>''[{"name":"index.html","content":"<body>$</body>"}]''\<close>
  have inl: \<open>inlineScripts ?fs (inlineStyles ?fs ''<body>$$</body>'') = ''<body>$$</body>''\<close>
    by (simp add: inlineStyles_def inlineScripts_def linkRegex_def scriptRegex_def)
  have J: \<open>allFilesForNav ?fs = ?J\<close> by (simp add: json_defs)
  have J': \<open>allFilesForNav [\<lparr>name = ''index.html'', content = ''<body>$</body>''\<rparr>] = ?J'\<close>
    by (simp add: json_defs)
  have tail: \<open>getSubstitution m b a (navigationScript_after @ ''</body>'')
              = navigationScript_after @ ''</body>''\<close> for m b a
    by (rule getSubstitution_plain) (simp add: navigationScript_after_plain)
  have mid: \<open>getSubstitution m b a (?J @ navigationScript_after @ ''</body>'')
             = ?J' @ navigationScript_after @ ''</body>''\<close> for m b a
    using tail [of m b a]
    by (simp add: getSubstitution_Cons_plain getSubstitution_dollar_dollar del: getSubstitution.simps)
  have sub: \<open>getSubstitution m b a (navigationScript ?J @ ''</body>'')
             = navigationScript ?J' @ ''</body>''\<close> for m b a
    using getSubstitution_plain_prefix [OF navigationScript_before_plain, of m b a
            \<open>?J @ navigationScript_after @ ''</body>''\<close>] mid [of m b a]
    by (simp add: navigationScript_def)
  have split: \<open>splitFirst ''</body>'' ''<body>$$</body>'' = Some (''<body>$$'', [])\<close>
    by simp
  have out: \<open>getPreviewContent (Some ?fs) ''index.html''
              = ''<body>$$'' @ navigationScript ?J' @ ''</body>''\<close>
    by (simp add: getPreviewContent_def endsWith_def suffix_to_prefix inl J
        String_replace_first [OF split] sub del: getSubstitution.simps splitFirst.simps)
  have ne: \<open>navigationScript ?J' \<noteq> navigationScript ?J\<close>
    by (simp add: navigationScript_def)
  from out ne show ?thesis by (simp add: J J')
qed

subsection \<open>The empty file list\<close>

text \<open>
  C10.  For the empty file list, and for \<open>null\<close>, \<open>getPreviewContent\<close> returns the empty
  string for every active page name; the empty string is not the diagnostic comment of the
  missing-page path.
\<close>

theorem getPreviewContent_empty:
  "getPreviewContent None page = [] \<and> getPreviewContent (Some []) page = []
   \<and> previewError page \<noteq> []"
  by (simp add: getPreviewContent_def previewError_def)

subsection \<open>The missing page\<close>

text \<open>
  C3, amended.  For every file list that is not empty and every page name, if no file has
  that name and a name ending in \<open>.html\<close>, \<open>getPreviewContent\<close> returns the comment
  \<open><!-- Preview Error: Could not find HTML file "page" -->\<close>.  The function is total: no
  path of it throws.
\<close>

theorem getPreviewContent_missing_page:
  assumes "fs \<noteq> []"
    and "\<not> list_ex (\<lambda>f. name f = page \<and> endsWith (name f) ''.html'') fs"
  shows "getPreviewContent (Some fs) page = previewError page
         \<and> startsWith (previewError page) ''<!-- Preview Error:''
         \<and> endsWith (previewError page) ''-->''"
proof -
  have a: "getPreviewContent (Some fs) page = previewError page"
  proof (cases "find (\<lambda>f. name f = page) fs")
    case None
    with assms(1) show ?thesis by (simp add: getPreviewContent_def)
  next
    case (Some pf)
    then have "name pf = page" "pf \<in> set fs" by (auto dest: find_name_Some)
    with assms(2) have "\<not> endsWith (name pf) ''.html''" by (auto simp: list_ex_iff)
    with Some assms(1) show ?thesis by (simp add: getPreviewContent_def)
  qed
  have b: "startsWith (previewError page) ''<!-- Preview Error:''"
    by (simp add: startsWith_def previewError_def)
  have c: "endsWith (previewError page) ''-->''"
    by (simp add: endsWith_def previewError_def suffix_def)
  from a b c show ?thesis by blast
qed

theorem getPreviewContent_missing_page_witness:
  \<open>[\<lparr>name = ''index.html'', content = ''<body></body>''\<rparr>] \<noteq> []
    \<and> \<not> list_ex (\<lambda>f. name f = ''missing.html'' \<and> endsWith (name f) ''.html'')
           [\<lparr>name = ''index.html'', content = ''<body></body>''\<rparr>]
    \<and> getPreviewContent (Some [\<lparr>name = ''index.html'', content = ''<body></body>''\<rparr>]) ''missing.html''
       = ''<!-- Preview Error: Could not find HTML file "missing.html" -->''\<close>
  using getPreviewContent_missing_page
    [of "[\<lparr>name = ''index.html'', content = ''<body></body>''\<rparr>]" "''missing.html''"]
  by (simp add: previewError_def)

text \<open>
  C3 as stated fails for the empty file list: no file is called \<open>missing.html\<close>, and the
  result is the empty string, which is no comment.
\<close>

theorem getPreviewContent_missing_page_empty_fileset:
  "getPreviewContent (Some []) ''missing.html'' = []
   \<and> getPreviewContent (Some []) ''missing.html'' \<noteq> previewError ''missing.html''
   \<and> \<not> startsWith (getPreviewContent (Some []) ''missing.html'') ''<!--''"
  by (simp add: getPreviewContent_def previewError_def startsWith_def)

subsection \<open>The selections after the file list changed\<close>

lemma defaultSelectedFile_present:
  "files \<noteq> [] \<Longrightarrow> list_ex (\<lambda>f. name f = defaultSelectedFile files) files"
proof (cases "find (\<lambda>f. name f = ''index.html'') files")
  case None
  assume "files \<noteq> []"
  then obtain f fs where "files = f # fs" by (cases files) auto
  with None show ?thesis
    by (simp add: defaultSelectedFile_def truthy_def)
next
  case (Some f)
  then have "name f = ''index.html''" "f \<in> set files" by (auto dest: find_name_Some)
  with Some show ?thesis
    by (auto simp: defaultSelectedFile_def truthy_def list_ex_iff)
qed

text \<open>The edit selection always falls back to a file that exists.\<close>

lemma syncSelection_selectedFile_present:
  "files \<noteq> [] \<Longrightarrow> list_ex (\<lambda>f. name f = selectedFile (syncSelection files s)) files"
  by (simp add: syncSelection_def Let_def defaultSelectedFile_present)

text \<open>The preview page falls back to the fixed name \<open>index.html\<close>.\<close>

lemma syncSelection_activePreviewPage:
  "activePreviewPage (syncSelection files s) =
     (if list_ex (\<lambda>f. name f = activePreviewPage s) files then activePreviewPage s
      else ''index.html'')"
  by (simp add: syncSelection_def Let_def)

text \<open>
  C2.  The claim: when the active preview page names a file that the new file list lacks,
  it is reset to \<open>index.html\<close> if that file exists and to the first file otherwise, so that
  it names a file of the list afterwards.  The code differs.  The preview showed
  \<open>about.html\<close>; the list is replaced by one holding only \<open>main.html\<close>.  The active preview
  page becomes \<open>index.html\<close>, which is not in the list, while the edit selection of the
  same effect becomes \<open>main.html\<close>; the preview then shows the missing-page comment.
\<close>

theorem syncSelection_without_index:
  \<open>activePreviewPage
      (syncSelection [\<lparr>name = ''main.html'', content = ''<body></body>''\<rparr>]
         ((initialCodeResult
             [\<lparr>name = ''about.html'', content = ''<body></body>''\<rparr>,
              \<lparr>name = ''main.html'', content = ''<body></body>''\<rparr>])
          \<lparr>activePreviewPage := ''about.html''\<rparr>))
      = ''index.html''
    \<and> ''index.html'' \<notin> name ` set [\<lparr>name = ''main.html'', content = ''<body></body>''\<rparr>]
    \<and> selectedFile
      (syncSelection [\<lparr>name = ''main.html'', content = ''<body></body>''\<rparr>]
         ((initialCodeResult
             [\<lparr>name = ''about.html'', content = ''<body></body>''\<rparr>,
              \<lparr>name = ''main.html'', content = ''<body></body>''\<rparr>])
          \<lparr>activePreviewPage := ''about.html'', selectedFile := ''about.html''\<rparr>))
      = ''main.html''
    \<and> getPreviewContent (Some [\<lparr>name = ''main.html'', content = ''<body></body>''\<rparr>]) ''index.html''
      = ''<!-- Preview Error: Could not find HTML file "index.html" -->''\<close>
  by (simp add: syncSelection_def initialCodeResult_def defaultSelectedFile_def truthy_def
      getPreviewContent_def previewError_def)

subsection \<open>The page table inside the script element\<close>

text \<open>
  C4.  The claim: in the composed document a click on an anchor is intercepted when its
  \<open>href\<close> is the name of a page of the page table: the default navigation is prevented, the
  body is swapped and a message is posted.  The code differs where a page of the table holds
  \<open></script>\<close>.  \<open>JSON.stringify\<close> leaves that text as it is, and the text of a script
  element ends at the first \<open></script>\<close> behind its opening tag.  For the two pages below,
  the first of which has a script element of its own, the element that was to hold the
  navigation script ends inside the page table: its text breaks off within a string and
  holds no call of \<open>addEventListener\<close>, and the lines that were to register the listener
  follow the element as markup.  No listener is registered, and the click on the anchor
  \<open>about.html\<close> is not intercepted.
\<close>

theorem navigation_script_cut:
  \<open>getPreviewContent
      (Some [\<lparr>name = ''index.html'', content = ''<body><a href='about.html'>About</a><script>console.log(1)</script></body>''\<rparr>,
       \<lparr>name = ''about.html'', content = ''<body><a href='index.html'>Home</a></body>''\<rparr>])
      ''index.html''
     = ''<body><a href='about.html'>About</a><script>console.log(1)</script>'' @
       ''\<newline>      <script>'' @
       ''\<newline>        const allPages = [{"name":"index.html","content":"<body><a href='about.html'>About</a><script>console.log(1)'' @
       ''</script>'' @
       ''</body>"},{"name":"about.html","content":"<body><a href='index.html'>Home</a></body>"}]'' @
       '';\<newline>'' @
       ''        document.addEventListener('DOMContentLoaded', () => {\<newline>'' @
       ''          // Virtual navigation for standard links\<newline>'' @
       ''          document.querySelectorAll('a').forEach(link => {\<newline>'' @
       ''            link.addEventListener('click', (event) => {\<newline>'' @
       ''              const href = link.getAttribute('href');\<newline>'' @
       ''              const targetPage = allPages.find(p => p.name === href);\<newline>'' @
       ''              if (href && !href.startsWith('http') && !href.startsWith('#') && targetPage) {\<newline>'' @
       ''                event.preventDefault();\<newline>'' @
       ''                document.body.innerHTML = new DOMParser().parseFromString(targetPage.content, 'text/html').body.innerHTML;\<newline>'' @
       ''                \<newline>'' @
       ''                // Re-run scripts from the new body\<newline>'' @
       ''                const newScripts = document.body.querySelectorAll('script');\<newline>'' @
       ''                newScripts.forEach(oldScript => {\<newline>'' @
       ''                  const newScript = document.createElement('script');\<newline>'' @
       ''                  Array.from(oldScript.attributes).forEach(attr => newScript.setAttribute(attr.name, attr.value));\<newline>'' @
       ''                  newScript.appendChild(document.createTextNode(oldScript.innerHTML));\<newline>'' @
       ''                  oldScript.parentNode.replaceChild(newScript, oldScript);\<newline>'' @
       ''                });\<newline>'' @
       ''\<newline>'' @
       ''                // Re-attach listeners for the new DOM\<newline>'' @
       ''                window.parent.postMessage({ type: 'virtual-nav-reinit' }, '*');\<newline>'' @
       ''              }\<newline>'' @
       ''            });\<newline>'' @
       ''          });\<newline>'' @
       ''        });\<newline>'' @
       ''\<newline>'' @
       ''        // Listener to re-initialize after a virtual nav\<newline>'' @
       ''         window.addEventListener('message', (event) => {\<newline>'' @
       ''          if(event.data && event.data.type === 'virtual-nav-reinit') {\<newline>'' @
       ''            // This is a bit of a trick to re-run the DOMContentLoaded logic\<newline>'' @
       ''            const fakeEvent = new Event('DOMContentLoaded');\<newline>'' @
       ''            document.dispatchEvent(fakeEvent);\<newline>'' @
       ''          }\<newline>'' @
       ''        });\<newline>'' @
       ''      </script>\<newline>'' @
       ''    '' @
       ''</body>''
   \<and> noStart ''</script>''
       ''\<newline>        const allPages = [{"name":"index.html","content":"<body><a href='about.html'>About</a><script>console.log(1)''
   \<and> \<not> sublist ''addEventListener''
       ''\<newline>        const allPages = [{"name":"index.html","content":"<body><a href='about.html'>About</a><script>console.log(1)''\<close>
proof -
  let ?index = \<open>\<lparr>name = ''index.html'', content = ''<body><a href='about.html'>About</a><script>console.log(1)</script></body>''\<rparr>\<close>
  let ?fs = \<open>[?index, \<lparr>name = ''about.html'', content = ''<body><a href='index.html'>Home</a></body>''\<rparr>]\<close>
  let ?cut = \<open>''\<newline>        const allPages = [{"name":"index.html","content":"<body><a href='about.html'>About</a><script>console.log(1)''\<close>
  have inl: \<open>inlineScripts ?fs (inlineStyles ?fs (content ?index))
             = ''<body><a href='about.html'>About</a><script>console.log(1)</script>'' @ ''</body>'' @ []\<close>
    by (simp add: inlineStyles_def inlineScripts_def linkRegex_def scriptRegex_def
        isSpace_def isLineTerminator_def)
  have J: \<open>allFilesForNav ?fs = ''[{"name":"index.html","content":"<body><a href='about.html'>About</a><script>console.log(1)</script></body>"},{"name":"about.html","content":"<body><a href='index.html'>Home</a></body>"}]''\<close>
    by (simp add: json_defs)
  have \<open>getPreviewContent (Some ?fs) ''index.html''
        = ''<body><a href='about.html'>About</a><script>console.log(1)</script>'' @ navigationScript (allFilesForNav ?fs) @ ''</body>'' @ []\<close>
  proof (rule getPreviewContent_injects_script)
    show \<open>find (\<lambda>f. name f = ''index.html'') ?fs = Some ?index\<close> by simp
    show \<open>endsWith (name ?index) ''.html''\<close> by (simp add: endsWith_def suffix_to_prefix)
    show \<open>inlineScripts ?fs (inlineStyles ?fs (content ?index))
          = ''<body><a href='about.html'>About</a><script>console.log(1)</script>'' @ ''</body>'' @ []\<close>
      by (rule inl)
    show \<open>noStart ''</body>'' ''<body><a href='about.html'>About</a><script>console.log(1)</script>''\<close> by simp
    show \<open>CHR ''$'' \<notin> set (name f) \<and> CHR ''$'' \<notin> set (content f)\<close>
      if \<open>f \<in> set ?fs\<close> for f
      using that by auto
  qed
  then have doc: \<open>getPreviewContent (Some ?fs) ''index.html''
     = ''<body><a href='about.html'>About</a><script>console.log(1)</script>'' @
       navigationScript_before @ allFilesForNav ?fs @ navigationScript_after @ ''</body>''\<close>
    by (simp add: navigationScript_def)
  have first: \<open>noStart ''</script>'' ?cut\<close> by simp
  have \<open>splitFirst ''addEventListener'' ?cut = None\<close> by simp
  then have none: \<open>\<not> sublist ''addEventListener'' ?cut\<close> by (rule splitFirst_None)
  from doc first none show ?thesis
    by (simp add: J navigationScript_before_def navigationScript_after_def)
qed

subsection \<open>Determinism\<close>

text \<open>
  C6.  \<open>getPreviewContent\<close>, in either copy, is a function of the file list and the active
  page name alone: two calls in renders that agree on these two give the same text,
  whatever the other cells of the component hold.  Nothing else, such as a clock or a
  random source, enters the result.
\<close>

theorem getPreviewContent_deterministic:
  "activePreviewPage s1 = activePreviewPage s2 \<Longrightarrow>
   CodeResult_getPreviewContent files s1 = CodeResult_getPreviewContent files s2
   \<and> CodeResult_getPreviewContent_combined files s1
       = CodeResult_getPreviewContent_combined files s2"
  by (simp add: CodeResult_getPreviewContent_def CodeResult_getPreviewContent_combined_def)

theorem getPreviewContent_deterministic_witness:
  \<open>activePreviewPage (initialCodeResult [\<lparr>name = ''index.html'', content = ''<p>hi</p>''\<rparr>])
     = activePreviewPage
         ((initialCodeResult [\<lparr>name = ''index.html'', content = ''<p>hi</p>''\<rparr>])
          \<lparr>activeTab := code, isCopied := True, lineCount := 12\<rparr>)
    \<and> CodeResult_getPreviewContent (Some [\<lparr>name = ''index.html'', content = ''<p>hi</p>''\<rparr>])
         (initialCodeResult [\<lparr>name = ''index.html'', content = ''<p>hi</p>''\<rparr>])
     = CodeResult_getPreviewContent (Some [\<lparr>name = ''index.html'', content = ''<p>hi</p>''\<rparr>])
         ((initialCodeResult [\<lparr>name = ''index.html'', content = ''<p>hi</p>''\<rparr>])
          \<lparr>activeTab := code, isCopied := True, lineCount := 12\<rparr>)\<close>
  using getPreviewContent_deterministic
    [of "initialCodeResult [\<lparr>name = ''index.html'', content = ''<p>hi</p>''\<rparr>]"
        "(initialCodeResult [\<lparr>name = ''index.html'', content = ''<p>hi</p>''\<rparr>])
          \<lparr>activeTab := code, isCopied := True, lineCount := 12\<rparr>"
        "Some [\<lparr>name = ''index.html'', content = ''<p>hi</p>''\<rparr>]"]
  by simp

section \<open>Properties of the generation service\<close>

lemma every_key_in_object:
  "every_key_in ks (JObject kvs) = Inr (set ks \<subseteq> fst ` set kvs)"
  by (induction ks) auto

lemma every_key_in_True:
  "ks \<noteq> [] \<Longrightarrow> (every_key_in ks v = Inr True) = (\<exists>kvs. v = JObject kvs \<and> set ks \<subseteq> fst ` set kvs)"
  by (cases ks; cases v) (auto simp: every_key_in_object)

lemma fenceRegex_sound:
  assumes "rxmatch fenceRegex g s = Some (rest, block)"
  shows "\<exists>ws1 ws2. s = ''```json'' @ ws1 @ block @ ws2 @ ''```'' @ rest
           \<and> list_all isSpace ws1 \<and> list_all isSpace ws2"
proof -
  from assms obtain s1 where s1: "s = ''```json'' @ s1"
    and m1: "greedy_rep (cls_ok Space) 0
               (rxmatch [GroupOpen, Lazy AnyChar 0, GroupClose, Greedy Space 0, Lit ''```''] g) s1
             = Some (rest, block)"
    by (auto simp: fenceRegex_def prefix_def split: if_splits)
  from greedy_rep_sound [OF m1] obtain ws1 s2 where s2: "s1 = ws1 @ s2" "list_all (cls_ok Space) ws1"
    and m2': "rxmatch [GroupOpen, Lazy AnyChar 0, GroupClose, Greedy Space 0, Lit ''```''] g s2
              = Some (rest, block)"
    by blast
  from m2' have m2: "lazy_rep (cls_ok AnyChar) 0
               (rxmatch [GroupClose, Greedy Space 0, Lit ''```''] (s2, snd g)) s2 = Some (rest, block)"
    by simp
  from lazy_rep_sound [OF m2] obtain b s3 where s3: "s2 = b @ s3"
    and m3': "rxmatch [GroupClose, Greedy Space 0, Lit ''```''] (s2, snd g) s3 = Some (rest, block)"
    by blast
  from m3' have m3: "greedy_rep (cls_ok Space) 0
               (rxmatch [Lit ''```''] (s2, take (length s2 - length s3) s2)) s3 = Some (rest, block)"
    by simp
  from greedy_rep_sound [OF m3] obtain ws2 s4 where s4: "s3 = ws2 @ s4" "list_all (cls_ok Space) ws2"
    and m4: "rxmatch [Lit ''```''] (s2, take (length s2 - length s3) s2) s4 = Some (rest, block)"
    by blast
  from m4 have "s4 = ''```'' @ rest" and "block = take (length s2 - length s3) s2"
    by (auto simp: prefix_def split: if_splits)
  with s3 have "block = b" by simp
  with s1 s2 s3 s4 \<open>s4 = ''```'' @ rest\<close>
  have "s = ''```json'' @ ws1 @ block @ ws2 @ ''```'' @ rest \<and> list_all isSpace ws1 \<and> list_all isSpace ws2"
    by (simp add: list_all_iff)
  then show ?thesis by blast
qed

lemma fencedBlock_shape:
  assumes "fencedBlock rawText = Some block"
  shows "\<exists>pre ws1 ws2 rest. rawText = pre @ ''```json'' @ ws1 @ block @ ws2 @ ''```'' @ rest
           \<and> list_all isSpace ws1 \<and> list_all isSpace ws2"
proof -
  from assms obtain rest where "rxsearch fenceRegex rawText = Some (rest, block)"
    by (auto simp: fencedBlock_def)
  from rxsearch_sound [OF this] obtain pre t
    where "rawText = pre @ t" "rxmatch fenceRegex ([], []) t = Some (rest, block)" by blast
  with fenceRegex_sound [of "([], [])" t rest block] show ?thesis by auto
qed

lemma parseJsonResponse_attempts:
  assumes "schema = generationResponseSchema \<or> schema = refinementResponseSchema"
  shows "parseJsonResponse JSON_parse rawText schema =
           (case JSON_parse rawText of
              Some v \<Rightarrow> if hasRequiredKeys schema v then Inr v else
                (case fencedBlock rawText of
                   Some block \<Rightarrow>
                     (case JSON_parse block of
                        Some v' \<Rightarrow> if hasRequiredKeys schema v' then Inr v' else Inl parseError
                      | None \<Rightarrow> Inl parseError)
                 | None \<Rightarrow> Inl parseError)
            | None \<Rightarrow>
                (case fencedBlock rawText of
                   Some block \<Rightarrow>
                     (case JSON_parse block of
                        Some v' \<Rightarrow> if hasRequiredKeys schema v' then Inr v' else Inl parseError
                      | None \<Rightarrow> Inl parseError)
                 | None \<Rightarrow> Inl parseError))"
proof -
  from assms have ne: "required schema \<noteq> []"
    by (auto simp: generationResponseSchema_def refinementResponseSchema_def)
  have key: "every_key_in (required schema) v = Inr True \<longleftrightarrow> hasRequiredKeys schema v" for v :: "'a json"
    using every_key_in_True [OF ne, of v] by (auto simp: hasRequiredKeys_def split: json.splits)
  have first: "(case (case every_key_in (required schema) v of
                        Inl e \<Rightarrow> Inl e
                      | Inr b \<Rightarrow> if b then Inr v
                                else Inl (Error ''Invalid response format: Missing required keys.''))
                of Inr parsed \<Rightarrow> Inr parsed | Inl e \<Rightarrow> x)
               = (if hasRequiredKeys schema v then Inr v else x)"
    for v :: "'a json" and x :: "js_error + 'a json"
    using key [of v] by (cases "every_key_in (required schema) v") auto
  have second: "(case every_key_in (required schema) v of
                   Inl e' \<Rightarrow> Inl parseError
                 | Inr b \<Rightarrow> if b then Inr v else Inl parseError)
               = (if hasRequiredKeys schema v then Inr v else Inl parseError)"
    for v :: "'a json"
    using key [of v] by (cases "every_key_in (required schema) v") auto
  show ?thesis
    unfolding parseJsonResponse_def
    by (simp add: first second split: option.split)
qed

text \<open>
  C7.  For either schema and every response text, \<open>parseJsonResponse\<close> first tries the
  whole text; if that attempt fails, by a parse error or a missing key, it takes the first
  fenced \<open>```json\<close> block and tries that; it returns the object of the first attempt that
  succeeds, and fails with the parse error when neither does.  A fenced block is text that
  stands between \<open>```json\<close> and a later \<open>```\<close>, with nothing but white space between
  it and them.
\<close>

theorem parseJsonResponse_two_attempts:
  assumes "schema = generationResponseSchema \<or> schema = refinementResponseSchema"
  shows "parseJsonResponse JSON_parse rawText schema =
           (case spec_attempt JSON_parse schema rawText of
              Some v \<Rightarrow> Inr v
            | None \<Rightarrow>
                (case fencedBlock rawText of
                   None \<Rightarrow> Inl parseError
                 | Some block \<Rightarrow>
                     (case spec_attempt JSON_parse schema block of
                        Some v \<Rightarrow> Inr v
                      | None \<Rightarrow> Inl parseError)))
         \<and> (fencedBlock rawText = Some block \<longrightarrow>
              (\<exists>pre ws1 ws2 rest.
                 rawText = pre @ ''```json'' @ ws1 @ block @ ws2 @ ''```'' @ rest
                 \<and> list_all isSpace ws1 \<and> list_all isSpace ws2))"
proof -
  have a: "spec_attempt JSON_parse schema body =
             (case JSON_parse body of None \<Rightarrow> None
              | Some v \<Rightarrow> if hasRequiredKeys schema v then Some v else None)" for body
    by (auto simp: spec_attempt_def hasRequiredKeys_def split: option.splits json.splits)
  show ?thesis
    using parseJsonResponse_attempts [OF assms, of JSON_parse rawText] fencedBlock_shape [of rawText block]
    by (auto simp: a split: option.splits)
qed

theorem parseJsonResponse_two_attempts_witness:
  \<open>parseJsonResponse
      (\<lambda>s. if s = ''{"files":[]}'' then Some (JObject [(''files'', JArray [])]) else None)
      ''Sure:\<newline>```json\<newline>{"files":[]}\<newline>```''
      generationResponseSchema
    = Inr (JObject [(''files'', JArray ([] :: nat json list))])
    \<and> parseJsonResponse
      (\<lambda>s. if s = ''{"files":[]}'' then Some (JObject [(''files'', JArray [])]) else None)
      ''{"files":[]}''
      refinementResponseSchema
    = (Inl parseError :: js_error + nat json)\<close>
  using parseJsonResponse_two_attempts
      [of generationResponseSchema
          \<open>\<lambda>s. if s = ''{"files":[]}'' then Some (JObject [(''files'', JArray ([] :: nat json list))]) else None\<close>
          \<open>''Sure:\<newline>```json\<newline>{"files":[]}\<newline>```''\<close>]
    parseJsonResponse_two_attempts
      [of refinementResponseSchema
          \<open>\<lambda>s. if s = ''{"files":[]}'' then Some (JObject [(''files'', JArray ([] :: nat json list))]) else None\<close>
          \<open>''{"files":[]}''\<close>]
  by (simp add: spec_attempt_def generationResponseSchema_def refinementResponseSchema_def
      fencedBlock_def fenceRegex_def isSpace_def)

section \<open>Properties of the application\<close>

lemma reachable_pending:
  "reachable True w \<Longrightarrow>
     pendingGenerate w = (if isGenerating (held w) then 1 else 0)
     \<and> pendingRefine w = (if isRefining (held w) then 1 else 0)"
proof (induction rule: reachable.induct)
  case start
  show ?case by (simp add: initialApp_def)
next
  case (render w)
  then show ?case by simp
next
  case (generate w p s' r)
  then show ?case
    by (auto simp: handleGenerate_def issued_def split: if_splits)
next
  case (generate_settled w res)
  then show ?case
    by (auto simp: handleGenerate_settled_def split: sum.splits if_splits)
next
  case (refine w now s' r)
  then show ?case
    by (auto simp: handleRefine_def issued_def split: if_splits)
next
  case (refine_settled w now res)
  then show ?case
    by (auto simp: handleRefine_settled_def split: sum.splits if_splits prod.splits)
next
  case (type_prompt w a b)
  then show ?case by simp
next
  case (edit_file w fs c new)
  then show ?case by simp
qed

text \<open>
  C8, amended.  A call of \<open>handleGenerate\<close> from a render in which \<open>isGenerating\<close> is set, and
  a call of \<open>handleRefine\<close> from a render in which \<open>isRefining\<close> is set, returns at once,
  changes no state and issues no request.  When no call of a handler comes from a render
  older than the setting of its busy flag, at most one generation request and at most one
  refinement request are outstanding in every state the application can reach.
\<close>

theorem busy_requests_ignored:
  "(reachable True w \<longrightarrow> pendingGenerate w \<le> 1 \<and> pendingRefine w \<le> 1)
   \<and> (isGenerating render \<longrightarrow> handleGenerate promptText render s = (s, None))
   \<and> (isRefining render \<longrightarrow> handleRefine now render s = (s, None))"
  using reachable_pending [of w]
  by (auto simp: handleGenerate_def handleRefine_def)

theorem busy_requests_ignored_witness:
  "reachable True
     \<lparr>held = initialApp\<lparr>isGenerating := True\<rparr>, rendered = initialApp\<lparr>isGenerating := True\<rparr>,
      pendingGenerate = 1, pendingRefine = 0\<rparr>
   \<and> isGenerating (initialApp\<lparr>isGenerating := True\<rparr>)
   \<and> handleGenerate ''a shop'' (initialApp\<lparr>isGenerating := True\<rparr>)
         (initialApp\<lparr>isGenerating := True\<rparr>)
       = (initialApp\<lparr>isGenerating := True\<rparr>, None)
   \<and> isRefining (initialApp\<lparr>isRefining := True, refinementPrompt := ''more blue'',
                             appFiles := Some []\<rparr>)
   \<and> handleRefine 7
         (initialApp\<lparr>isRefining := True, refinementPrompt := ''more blue'', appFiles := Some []\<rparr>)
         (initialApp\<lparr>isRefining := True, appFiles := Some []\<rparr>)
       = (initialApp\<lparr>isRefining := True, appFiles := Some []\<rparr>, None)"
proof -
  let ?w0 = "\<lparr>held = initialApp, rendered = initialApp, pendingGenerate = 0, pendingRefine = 0\<rparr>"
  let ?busy = "initialApp\<lparr>isGenerating := True\<rparr>"
  have "handleGenerate ''a blog'' (rendered ?w0) (held ?w0)
        = (?busy, Some (GenerateRequest ''a blog''))"
    by (simp add: handleGenerate_def initialApp_def trim_def isSpace_def)
  from reachable.generate [OF reachable.start _ this, of True]
  have "reachable True
          \<lparr>held = ?busy, rendered = initialApp, pendingGenerate = 1, pendingRefine = 0\<rparr>"
    by (simp add: issued_def)
  from reachable.render [OF this]
  have r: "reachable True
          \<lparr>held = ?busy, rendered = ?busy, pendingGenerate = 1, pendingRefine = 0\<rparr>"
    by simp
  show ?thesis
    using r busy_requests_ignored
      [where w = "\<lparr>held = ?busy, rendered = ?busy, pendingGenerate = 1, pendingRefine = 0\<rparr>"
         and render = ?busy and s = ?busy and promptText = "''a shop''" and now = 7]
      busy_requests_ignored
      [where w = "\<lparr>held = ?busy, rendered = ?busy, pendingGenerate = 1, pendingRefine = 0\<rparr>"
         and render = "initialApp\<lparr>isRefining := True, refinementPrompt := ''more blue'',
                                     appFiles := Some []\<rparr>"
         and s = "initialApp\<lparr>isRefining := True, appFiles := Some []\<rparr>"
         and promptText = "''a shop''" and now = 7]
    by (simp add: initialApp_def)
qed

text \<open>
  C8 as stated fails: two calls of \<open>handleGenerate\<close> from one render, in which
  \<open>isGenerating\<close> is not yet set, both pass the test, and two generation requests are
  outstanding.
\<close>

theorem two_requests_from_one_render:
  "reachable False
     \<lparr>held = initialApp\<lparr>isGenerating := True\<rparr>, rendered = initialApp,
      pendingGenerate = 2, pendingRefine = 0\<rparr>
   \<and> handleGenerate ''a shop'' initialApp (initialApp\<lparr>isGenerating := True\<rparr>)
       = (initialApp\<lparr>isGenerating := True\<rparr>, Some (GenerateRequest ''a shop''))"
proof -
  let ?w0 = "\<lparr>held = initialApp, rendered = initialApp, pendingGenerate = 0, pendingRefine = 0\<rparr>"
  let ?busy = "initialApp\<lparr>isGenerating := True\<rparr>"
  let ?w1 = "\<lparr>held = ?busy, rendered = initialApp, pendingGenerate = 1, pendingRefine = 0\<rparr>"
  have first: "handleGenerate ''a blog'' (rendered ?w0) (held ?w0)
        = (?busy, Some (GenerateRequest ''a blog''))"
    by (simp add: handleGenerate_def initialApp_def trim_def isSpace_def)
  from reachable.generate [OF reachable.start _ first, of False]
  have r1: "reachable False ?w1"
    by (simp add: issued_def)
  have second: "handleGenerate ''a shop'' (rendered ?w1) (held ?w1)
        = (?busy, Some (GenerateRequest ''a shop''))"
    by (simp add: handleGenerate_def initialApp_def trim_def isSpace_def)
  from reachable.generate [OF r1 _ second]
  have "reachable False
          \<lparr>held = ?busy, rendered = initialApp, pendingGenerate = 2, pendingRefine = 0\<rparr>"
    by (simp add: issued_def numeral_2_eq_2)
  with second show ?thesis by simp
qed

text \<open>
  C9, amended.  The store checks no names.  It holds the file list exactly as generation or
  refinement returned it, and an edit changes contents only, never the sequence of names.
  So the names of the held files are unique exactly when they were unique in the list the
  service returned.
\<close>

theorem store_keeps_returned_files:
  "appFiles (handleGenerate_settled (Inr fs) s) = Some fs
   \<and> appFiles (handleRefine_settled now (Inr (fs, explanation)) s) = Some fs
   \<and> map name (handleFileContentChange fs c newContent) = map name fs"
  by (simp add: handleGenerate_settled_def handleRefine_settled_def handleFileContentChange_def)

text \<open>
  C9 as stated fails: a generation that returns two files called \<open>index.html\<close> leaves both
  in the store.
\<close>

theorem store_holds_duplicate_names:
  "map name (the (appFiles (handleGenerate_settled
      (Inr [\<lparr>name = ''index.html'', content = ''a''\<rparr>, \<lparr>name = ''index.html'', content = ''b''\<rparr>])
      (fst (handleGenerate ''a blog'' initialApp initialApp)))))
   = [''index.html'', ''index.html'']"
  by (simp add: handleGenerate_settled_def)

end
